theory Spec2Isabelle
  imports Complex_Main "HOL-Library.Multiset" "HOL-Library.Code_Target_Nat"
begin

section \<open>JavaScript values\<close>

text \<open>
  The controllers read their inputs from \<^verbatim>\<open>req.body\<close>, a parsed JSON document, so a
  field may hold any JSON value or be absent (\<^verbatim>\<open>undefined\<close>). \<open>JNumber r\<close> is a
  number written in the document with the value \<open>r\<close>; the program sees the double it
  is read as (\<open>roundDouble r\<close> below). An object's content is never inspected by the
  code under study (it is truthy, \<^verbatim>\<open>parseFloat\<close> maps it to NaN and it is equal to no
  string), so objects are one constructor. Strings are ASCII.
\<close>

datatype jsval =
    JUndefined
  | JNull
  | JBool bool
  | JNumber real
  | JString string
  | JArray "jsval list"
  | JObject

text \<open>
  A JavaScript number, an IEEE 754 double: \<open>Finite r\<close> is the double with the value
  \<open>r\<close>, \<open>Infinity True\<close> is \<^verbatim>\<open>+Infinity\<close>, \<open>Infinity False\<close> is
  \<^verbatim>\<open>-Infinity\<close>. The two zeros are one value: the sign of a zero shows only when a
  number is divided by it, and the code under study never does that.
\<close>

datatype number = Finite real | Infinity bool | NaN

text \<open>
  Rounding a real to a double, to nearest and ties to even. A double is a multiple
  \<open>m * 2 ^ e\<close> with \<open>\<bar>m\<bar> < 2 ^ 53\<close> and \<open>- 1074 \<le> e \<le> 971\<close>. For a magnitude
  \<open>a\<close>, \<open>ulpExponent a\<close> is the exponent of the spacing of the doubles around it:
  the least \<open>e\<close> from \<open>- 1074\<close> on with \<open>a < 2 ^ (e + 53)\<close> (\<open>- 1074\<close> for the
  subnormal numbers, and \<open>972\<close> from \<open>2 ^ 1024\<close> on). \<open>roundDouble x\<close> rounds the
  magnitude to the nearest multiple of that spacing, and overflows to an infinity when
  the multiple reaches \<open>2 ^ 1024\<close>; a magnitude under half the least subnormal number
  underflows to zero.
\<close>

definition roundHalfEven :: "real \<Rightarrow> int" where
  "roundHalfEven t =
     (let f = \<lfloor>t\<rfloor>; r = t - of_int f
      in if r < 1 / 2 then f else if 1 / 2 < r then f + 1 else if even f then f else f + 1)"

definition ulpExponent :: "real \<Rightarrow> int" where
  "ulpExponent a =
     (case find (\<lambda>e. a < 2 powi (e + 53)) [- 1074..971] of Some e \<Rightarrow> e | None \<Rightarrow> 972)"

definition roundDouble :: "real \<Rightarrow> number" where
  "roundDouble x =
     (let e = ulpExponent \<bar>x\<bar>;
          y = of_int (roundHalfEven (\<bar>x\<bar> / 2 powi e)) * 2 powi e
      in if 2 ^ 1024 \<le> y then Infinity (0 < x) else Finite (if 0 < x then y else - y))"

text \<open>\<open>isDouble x\<close>: the real \<open>x\<close> is the value of a finite double.\<close>

definition isDouble :: "real \<Rightarrow> bool" where
  "isDouble x =
     (\<bar>x\<bar> < 2 ^ 1024 \<and> (let t = \<bar>x\<bar> / 2 powi ulpExponent \<bar>x\<bar> in of_int \<lfloor>t\<rfloor> = t))"

text \<open>
  The arithmetic operators: the exact result of two finite operands, rounded; the
  IEEE rules on the infinities and NaN.
\<close>

fun js_neg :: "number \<Rightarrow> number" where
  "js_neg (Finite a) = Finite (- a)"
| "js_neg (Infinity s) = Infinity (\<not> s)"
| "js_neg NaN = NaN"

fun js_add :: "number \<Rightarrow> number \<Rightarrow> number" where
  "js_add (Finite a) (Finite b) = roundDouble (a + b)"
| "js_add (Finite a) (Infinity t) = Infinity t"
| "js_add (Infinity s) (Finite b) = Infinity s"
| "js_add (Infinity s) (Infinity t) = (if s = t then Infinity s else NaN)"
| "js_add NaN y = NaN"
| "js_add x NaN = NaN"

definition js_sub :: "number \<Rightarrow> number \<Rightarrow> number" where
  "js_sub x y = js_add x (js_neg y)"

fun js_mul :: "number \<Rightarrow> number \<Rightarrow> number" where
  "js_mul (Finite a) (Finite b) = roundDouble (a * b)"
| "js_mul (Finite a) (Infinity t) = (if a = 0 then NaN else Infinity (t = (0 < a)))"
| "js_mul (Infinity s) (Finite b) = (if b = 0 then NaN else Infinity (s = (0 < b)))"
| "js_mul (Infinity s) (Infinity t) = Infinity (s = t)"
| "js_mul NaN y = NaN"
| "js_mul x NaN = NaN"

text \<open>
  Division. A finite divisor \<open>0\<close> is read as \<^verbatim>\<open>+0\<close> (the model has one zero);
  \<open>computeResult\<close> never divides by zero, so that branch is not reached from it.
\<close>

fun js_div :: "number \<Rightarrow> number \<Rightarrow> number" where
  "js_div (Finite a) (Finite b) =
     (if b = 0 then (if a = 0 then NaN else Infinity (0 < a)) else roundDouble (a / b))"
| "js_div (Finite a) (Infinity t) = Finite 0"
| "js_div (Infinity s) (Finite b) = Infinity (s = (0 \<le> b))"
| "js_div (Infinity s) (Infinity t) = NaN"
| "js_div NaN y = NaN"
| "js_div x NaN = NaN"

text \<open>\<^verbatim>\<open>a === b\<close> on numbers: NaN is equal to nothing, itself included.\<close>

definition strict_eq :: "number \<Rightarrow> number \<Rightarrow> bool" where
  "strict_eq a b = (a \<noteq> NaN \<and> a = b)"

text \<open>\<^verbatim>\<open>!v\<close> is \<open>\<not> truthy v\<close>. A number is falsy when it is zero or NaN; a number
  of a JSON document is never NaN.\<close>

fun truthy :: "jsval \<Rightarrow> bool" where
  "truthy JUndefined = False"
| "truthy JNull = False"
| "truthy (JBool b) = b"
| "truthy (JNumber r) = (roundDouble r \<noteq> Finite 0)"
| "truthy (JString s) = (s \<noteq> [])"
| "truthy (JArray xs) = True"
| "truthy JObject = True"

subsection \<open>parseFloat\<close>

text \<open>
  \<^verbatim>\<open>parseFloat(v)\<close> converts \<open>v\<close> to a string, skips leading white space and reads the
  longest prefix that is a decimal literal: an optional sign, then \<^verbatim>\<open>Infinity\<close> or
  digits with an optional fraction and an optional exponent. The result is the
  literal's value rounded to a double; with no such prefix it is NaN.
\<close>

definition isWhiteSpace :: "char \<Rightarrow> bool" where
  "isWhiteSpace c = (c \<in> set [CHR '' '', CHR 0x09, CHR 0x0A, CHR 0x0B, CHR 0x0C, CHR 0x0D])"

definition isDigit :: "char \<Rightarrow> bool" where
  "isDigit c = (c \<in> set ''0123456789'')"

definition digitValue :: "char \<Rightarrow> nat" where
  "digitValue c = of_char c - 48"

definition digitsValue :: "string \<Rightarrow> nat" where
  "digitsValue ds = foldl (\<lambda>a c. 10 * a + digitValue c) 0 ds"

text \<open>The exponent part at the head of \<open>s\<close>, or \<open>0\<close> when \<open>s\<close> does not start with one.\<close>

definition exponentOf :: "string \<Rightarrow> int" where
  "exponentOf s =
     (case s of
        [] \<Rightarrow> 0
      | c # r \<Rightarrow>
          if c = CHR ''e'' \<or> c = CHR ''E'' then
            (case r of
               [] \<Rightarrow> 0
             | d # r' \<Rightarrow>
                 if d = CHR ''-'' then
                   (if takeWhile isDigit r' = [] then 0
                    else - int (digitsValue (takeWhile isDigit r')))
                 else if d = CHR ''+'' then int (digitsValue (takeWhile isDigit r'))
                 else int (digitsValue (takeWhile isDigit r)))
          else 0)"

definition scale10 :: "real \<Rightarrow> int \<Rightarrow> real" where
  "scale10 m e = (if 0 \<le> e then m * 10 ^ nat e else m / 10 ^ nat (- e))"

definition unsignedLiteral :: "string \<Rightarrow> number" where
  "unsignedLiteral u =
     (if take 8 u = ''Infinity'' then Infinity True
      else
        let ip = takeWhile isDigit u;
            r1 = dropWhile isDigit u;
            fp = (case r1 of [] \<Rightarrow> [] | c # r \<Rightarrow> if c = CHR ''.'' then takeWhile isDigit r else []);
            r2 = (case r1 of [] \<Rightarrow> [] | c # r \<Rightarrow> if c = CHR ''.'' then dropWhile isDigit r else r1)
        in if ip = [] \<and> fp = [] then NaN
           else roundDouble
                  (scale10 (real (digitsValue (ip @ fp)) / 10 ^ length fp) (exponentOf r2)))"

definition parseFloatString :: "string \<Rightarrow> number" where
  "parseFloatString s =
     (case dropWhile isWhiteSpace s of
        [] \<Rightarrow> NaN
      | c # r \<Rightarrow>
          if c = CHR ''-'' then js_neg (unsignedLiteral r)
          else if c = CHR ''+'' then unsignedLiteral r
          else unsignedLiteral (c # r))"

text \<open>
  On a value that is not a string, \<^verbatim>\<open>parseFloat\<close> reads the value's string form:
  \<^verbatim>\<open>"undefined"\<close>, \<^verbatim>\<open>"null"\<close>, \<^verbatim>\<open>"true"\<close>, \<^verbatim>\<open>"false"\<close> and
  \<^verbatim>\<open>"[object Object]"\<close> have no numeric prefix; a number's string form reads back as
  the number, the double it was read as; an array's is its elements' joined by commas,
  and a comma ends every literal, so the result is that of the first element (NaN for
  the empty array).
\<close>

fun parseFloat :: "jsval \<Rightarrow> number" where
  "parseFloat JUndefined = NaN"
| "parseFloat JNull = NaN"
| "parseFloat (JBool b) = NaN"
| "parseFloat (JNumber r) = roundDouble r"
| "parseFloat (JString s) = parseFloatString s"
| "parseFloat (JArray []) = NaN"
| "parseFloat (JArray (x # xs)) = parseFloat x"
| "parseFloat JObject = NaN"

section \<open>Result computation\<close>

text \<open>
  What a function throws. \<open>Error m\<close> is \<^verbatim>\<open>new Error(m)\<close>; the other two are the
  storage client's: an argument of the wrong type for the schema, and a request the
  database rejects (with the client's error code).
\<close>

datatype exn =
    Error string
  | PrismaClientValidationError
  | PrismaClientKnownRequestError string

text \<open>
  \<^verbatim>\<open>computeResult(previousValue, operation, operand)\<close>, operation-model.ts. The switch
  compares \<open>operation\<close> with the four strings in order; \<open>Inl\<close> is a throw.
\<close>

definition computeResult :: "number \<Rightarrow> string \<Rightarrow> number \<Rightarrow> exn + number" where
  "computeResult previousValue operation operand =
     (if operation = ''ADD'' then Inr (js_add previousValue operand)
      else if operation = ''SUBTRACT'' then Inr (js_sub previousValue operand)
      else if operation = ''MULTIPLY'' then Inr (js_mul previousValue operand)
      else if operation = ''DIVIDE'' then
        (if strict_eq operand (Finite 0) then Inl (Error ''Division by zero is not allowed'')
         else Inr (js_div previousValue operand))
      else Inl (Error (''Invalid operation type: '' @ operation)))"

section \<open>The store\<close>

text \<open>
  The two tables the code reaches through the storage client. The scalar columns are the
  ones the code names; the relations a query includes (author, parent, children) are
  read from the same rows and are not part of the model, and neither is the table of
  users: an \<^verbatim>\<open>authorId\<close> is the identity the authentication layer has verified.

  Modelled from the spec: the schema of the tables is not among the source files. The
  spec says that the storage ``provides atomic create/read/update with a
  unique-constraint guarantee on Discussion's startingNumber and referential-integrity
  guarantees on Operation's discussionId/parentId foreign keys''; the functions below
  that write a row check just that, and a numeric column holds any number it is given.
\<close>

record discussion =
  d_id :: string
  d_startingNumber :: number
  d_authorId :: string
  d_createdAt :: nat

record operation =
  o_id :: string
  o_discussionId :: string
  o_parentId :: "string option"
  o_operationType :: string
  o_operand :: number
  o_result :: number
  o_authorId :: string
  o_createdAt :: nat

text \<open>
  A table is a list of rows, the newest at the head. \<open>nextId\<close> counts the rows ever
  created; it is the source of fresh identities.
\<close>

record store =
  discussions :: "discussion list"
  operations :: "operation list"
  nextId :: nat

definition emptyStore :: store where
  "emptyStore = \<lparr>discussions = [], operations = [], nextId = 0\<rparr>"

text \<open>
  Modelled from the spec: the schema, which sets how a row gets its identity, is not
  among the source files. The spec says an identity is an opaque unique identifier
  assigned at creation; here the \<open>n\<close>-th row created gets a non-empty string that no
  other row has.
\<close>

definition newId :: "nat \<Rightarrow> string" where
  "newId n = CHR ''c'' # replicate n (CHR ''0'')"

subsection \<open>Discussions\<close>

text \<open>\<^verbatim>\<open>prisma.discussion.findUnique({ where: { id } })\<close> on a string.\<close>

definition findUniqueDiscussion :: "store \<Rightarrow> string \<Rightarrow> discussion option" where
  "findUniqueDiscussion s i = find (\<lambda>d. d_id d = i) (discussions s)"

text \<open>
  \<^verbatim>\<open>DiscussionRepository.findById(id)\<close>. The controllers pass what the request holds;
  the client rejects an identity that is not a string.
\<close>

definition DiscussionRepository_findById :: "store \<Rightarrow> jsval \<Rightarrow> exn + discussion option" where
  "DiscussionRepository_findById s v =
     (case v of
        JString i \<Rightarrow> Inr (findUniqueDiscussion s i)
      | _ \<Rightarrow> Inl PrismaClientValidationError)"

text \<open>\<^verbatim>\<open>DiscussionModel.findByStartingNumber(startingNumber)\<close>. The database compares
  values: NaN matches a stored NaN.\<close>

definition DiscussionModel_findByStartingNumber :: "store \<Rightarrow> number \<Rightarrow> discussion option" where
  "DiscussionModel_findByStartingNumber s v = find (\<lambda>d. d_startingNumber d = v) (discussions s)"

text \<open>
  \<^verbatim>\<open>DiscussionRepository.create({ startingNumber, authorId })\<close>. The column
  \<^verbatim>\<open>startingNumber\<close> is unique (the code looks rows up by it with
  \<^verbatim>\<open>findUnique\<close>), so the database rejects a second row with a value already there.
\<close>

definition DiscussionRepository_create ::
  "store \<Rightarrow> nat \<Rightarrow> number \<Rightarrow> string \<Rightarrow> exn + discussion \<times> store" where
  "DiscussionRepository_create s now startingNumber authorId =
     (if DiscussionModel_findByStartingNumber s startingNumber \<noteq> None
      then Inl (PrismaClientKnownRequestError ''P2002'')
      else
        let d = \<lparr>d_id = newId (nextId s), d_startingNumber = startingNumber,
                 d_authorId = authorId, d_createdAt = now\<rparr>
        in Inr (d, s\<lparr>discussions := d # discussions s, nextId := Suc (nextId s)\<rparr>))"

text \<open>\<^verbatim>\<open>DiscussionRepository.update(id, { startingNumber })\<close>: the row must exist, and
  the new value must not be another row's.\<close>

definition DiscussionRepository_update ::
  "store \<Rightarrow> string \<Rightarrow> number \<Rightarrow> exn + discussion \<times> store" where
  "DiscussionRepository_update s i startingNumber =
     (case findUniqueDiscussion s i of
        None \<Rightarrow> Inl (PrismaClientKnownRequestError ''P2025'')
      | Some d \<Rightarrow>
          if find (\<lambda>e. d_id e \<noteq> i \<and> d_startingNumber e = startingNumber) (discussions s) \<noteq> None
          then Inl (PrismaClientKnownRequestError ''P2002'')
          else
            let d' = d\<lparr>d_startingNumber := startingNumber\<rparr>
            in Inr (d', s\<lparr>discussions :=
                             map (\<lambda>e. if d_id e = i then d' else e) (discussions s)\<rparr>))"

subsection \<open>Operations\<close>

definition findUniqueOperation :: "store \<Rightarrow> string \<Rightarrow> operation option" where
  "findUniqueOperation s i = find (\<lambda>x. o_id x = i) (operations s)"

definition OperationRepository_findById :: "store \<Rightarrow> jsval \<Rightarrow> exn + operation option" where
  "OperationRepository_findById s v =
     (case v of
        JString i \<Rightarrow> Inr (findUniqueOperation s i)
      | _ \<Rightarrow> Inl PrismaClientValidationError)"

text \<open>
  \<^verbatim>\<open>OperationRepository.create(data)\<close>. The client checks the types of
  \<^verbatim>\<open>discussionId\<close> (a string) and \<^verbatim>\<open>parentId\<close> (a string or null); the database
  checks that both name existing rows (the relations \<^verbatim>\<open>discussion\<close> and
  \<^verbatim>\<open>parent\<close> that the queries include).
\<close>

definition OperationRepository_create ::
  "store \<Rightarrow> nat \<Rightarrow> jsval \<Rightarrow> jsval \<Rightarrow> string \<Rightarrow> number \<Rightarrow> number \<Rightarrow> string
     \<Rightarrow> exn + operation \<times> store" where
  "OperationRepository_create s now discussionId parentId operationType operand result authorId =
     (case discussionId of
        JString d \<Rightarrow>
          (case (case parentId of
                   JNull \<Rightarrow> Inr None
                 | JUndefined \<Rightarrow> Inr None
                 | JString p \<Rightarrow> Inr (Some p)
                 | _ \<Rightarrow> Inl PrismaClientValidationError) of
             Inl e \<Rightarrow> Inl e
           | Inr parent \<Rightarrow>
               if findUniqueDiscussion s d = None
               then Inl (PrismaClientKnownRequestError ''P2003'')
               else if (case parent of None \<Rightarrow> False | Some p \<Rightarrow> findUniqueOperation s p = None)
               then Inl (PrismaClientKnownRequestError ''P2003'')
               else
                 let x = \<lparr>o_id = newId (nextId s), o_discussionId = d, o_parentId = parent,
                          o_operationType = operationType, o_operand = operand,
                          o_result = result, o_authorId = authorId, o_createdAt = now\<rparr>
                 in Inr (x, s\<lparr>operations := x # operations s, nextId := Suc (nextId s)\<rparr>))
      | _ \<Rightarrow> Inl PrismaClientValidationError)"

section \<open>The controllers\<close>

text \<open>
  A response is the status and the JSON body. \<open>ThrownBody e\<close> is the body the
  \<^verbatim>\<open>catch\<close> block sends, \<^verbatim>\<open>{ error: error.message }\<close>; \<open>ConflictBody m i n\<close> is
  \<^verbatim>\<open>{ error: m, existingDiscussion: { id: i, startingNumber: n } }\<close>.
\<close>

datatype body =
    ErrorBody string
  | ThrownBody exn
  | ConflictBody string string number
  | DiscussionBody discussion
  | OperationBody operation

datatype response = Response (status: nat) (json: body)

text \<open>
  \<^verbatim>\<open>DiscussionController.create\<close>: the body's \<^verbatim>\<open>startingNumber\<close> and the
  authenticated \<^verbatim>\<open>req.userId\<close>; \<open>now\<close> is the clock's value when the row is written.
\<close>

definition DiscussionController_create ::
  "store \<Rightarrow> nat \<Rightarrow> jsval \<Rightarrow> string \<Rightarrow> response \<times> store" where
  "DiscussionController_create s now startingNumber userId =
     (if startingNumber = JUndefined \<or> startingNumber = JNull
      then (Response 400 (ErrorBody ''startingNumber is required''), s)
      else
        let numberValue = parseFloat startingNumber in
        case DiscussionModel_findByStartingNumber s numberValue of
          Some existing \<Rightarrow>
            (Response 409 (ConflictBody ''This starting number is already taken''
               (d_id existing) (d_startingNumber existing)), s)
        | None \<Rightarrow>
            (case DiscussionRepository_create s now numberValue userId of
               Inl e \<Rightarrow> (Response 500 (ThrownBody e), s)
             | Inr (discussion, s') \<Rightarrow> (Response 201 (DiscussionBody discussion), s')))"

text \<open>\<^verbatim>\<open>DiscussionController.update\<close>: \<open>i\<close> is the route's \<^verbatim>\<open>:id\<close>, a string.\<close>

definition DiscussionController_update ::
  "store \<Rightarrow> string \<Rightarrow> jsval \<Rightarrow> string \<Rightarrow> response \<times> store" where
  "DiscussionController_update s i startingNumber userId =
     (if i = [] then (Response 400 (ErrorBody ''Discussion ID is required''), s)
      else if startingNumber = JUndefined \<or> startingNumber = JNull
      then (Response 400 (ErrorBody ''startingNumber is required''), s)
      else
        case DiscussionRepository_findById s (JString i) of
          Inl e \<Rightarrow> (Response 500 (ThrownBody e), s)
        | Inr None \<Rightarrow> (Response 404 (ErrorBody ''Discussion not found''), s)
        | Inr (Some discussion) \<Rightarrow>
            if d_authorId discussion \<noteq> userId
            then (Response 403 (ErrorBody ''Not authorized to update this discussion''), s)
            else
              let numberValue = parseFloat startingNumber in
              case (if \<not> strict_eq numberValue (d_startingNumber discussion)
                    then DiscussionModel_findByStartingNumber s numberValue else None) of
                Some existing \<Rightarrow>
                  (Response 409 (ConflictBody
                     ''This starting number is already taken by another discussion''
                     (d_id existing) (d_startingNumber existing)), s)
              | None \<Rightarrow>
                  (case DiscussionRepository_update s i numberValue of
                     Inl e \<Rightarrow> (Response 500 (ThrownBody e), s)
                   | Inr (updated, s') \<Rightarrow> (Response 200 (DiscussionBody updated), s')))"

text \<open>The body of \<^verbatim>\<open>POST /api/operations\<close>; an absent field is \<open>JUndefined\<close>.\<close>

record operation_body =
  discussionId :: jsval
  parentId :: jsval
  operationType :: jsval
  operand :: jsval

definition validOperations :: "string list" where
  "validOperations = [''ADD'', ''SUBTRACT'', ''MULTIPLY'', ''DIVIDE'']"

text \<open>
  \<^verbatim>\<open>OperationController.create\<close>. \<^verbatim>\<open>validOperations.includes(operationType)\<close>
  compares strictly, so a value that is not a string is in no case included.
  \<open>previous\<close> is the value of \<^verbatim>\<open>previousValue\<close>, or the response of an early return.
\<close>

definition OperationController_create ::
  "store \<Rightarrow> nat \<Rightarrow> operation_body \<Rightarrow> string \<Rightarrow> response \<times> store" where
  "OperationController_create s now b userId =
     (if \<not> truthy (discussionId b) \<or> \<not> truthy (operationType b)
         \<or> operand b = JUndefined \<or> operand b = JNull
      then (Response 400 (ErrorBody ''discussionId, operationType, and operand are required''), s)
      else
        case (case operationType b of
                JString t \<Rightarrow> if t \<in> set validOperations then Some t else None
              | _ \<Rightarrow> None) of
          None \<Rightarrow>
            (Response 400 (ErrorBody ''operationType must be ADD, SUBTRACT, MULTIPLY, or DIVIDE''), s)
        | Some opType \<Rightarrow>
            (case DiscussionRepository_findById s (discussionId b) of
               Inl e \<Rightarrow> (Response 500 (ThrownBody e), s)
             | Inr None \<Rightarrow> (Response 404 (ErrorBody ''Discussion not found''), s)
             | Inr (Some discussion) \<Rightarrow>
                 let previous =
                   (if truthy (parentId b) then
                      (case OperationRepository_findById s (parentId b) of
                         Inl e \<Rightarrow> Inl (Response 500 (ThrownBody e))
                       | Inr None \<Rightarrow> Inl (Response 404 (ErrorBody ''Parent operation not found''))
                       | Inr (Some parentOperation) \<Rightarrow>
                           if JString (o_discussionId parentOperation) \<noteq> discussionId b
                           then Inl (Response 400 (ErrorBody
                                  ''Parent operation does not belong to this discussion''))
                           else Inr (o_result parentOperation))
                    else Inr (d_startingNumber discussion))
                 in
                 case previous of
                   Inl r \<Rightarrow> (r, s)
                 | Inr previousValue \<Rightarrow>
                     (case computeResult previousValue opType (parseFloat (operand b)) of
                        Inl e \<Rightarrow> (Response 500 (ThrownBody e), s)
                      | Inr result \<Rightarrow>
                          (case OperationRepository_create s now (discussionId b)
                                  (if truthy (parentId b) then parentId b else JNull)
                                  opType (parseFloat (operand b)) result userId of
                             Inl e \<Rightarrow> (Response 500 (ThrownBody e), s)
                           | Inr (operation, s') \<Rightarrow>
                               (Response 201 (OperationBody operation), s')))))"

section \<open>The chain of an operation\<close>

text \<open>
  \<^verbatim>\<open>OperationModel.getOperationChain(operationId)\<close>. The loop runs while there is a
  current operation: it puts the operation at the front of the chain, stops when its
  \<^verbatim>\<open>parentId\<close> is falsy (null or the empty string) and goes on with the parent's row
  otherwise. \<open>None\<close> is a loop that never ends.
\<close>

partial_function (option) chainLoop ::
  "store \<Rightarrow> operation option \<Rightarrow> operation list \<Rightarrow> operation list option" where
  "chainLoop s currentOperation chain =
     (case currentOperation of
        None \<Rightarrow> Some chain
      | Some cur \<Rightarrow>
          (case o_parentId cur of
             None \<Rightarrow> Some (cur # chain)
           | Some p \<Rightarrow>
               if p = [] then Some (cur # chain)
               else chainLoop s (findUniqueOperation s p) (cur # chain)))"

definition OperationModel_getOperationChain :: "store \<Rightarrow> string \<Rightarrow> operation list option" where
  "OperationModel_getOperationChain s operationId =
     chainLoop s (findUniqueOperation s operationId) []"

section \<open>Listings\<close>

text \<open>
  A query with \<^verbatim>\<open>orderBy: { createdAt: 'asc' }\<close> returns the rows that match its
  \<^verbatim>\<open>where\<close>, each once, in an order in which \<^verbatim>\<open>createdAt\<close> never decreases. The
  query names no second key, so the database is free in the order of rows with equal
  \<^verbatim>\<open>createdAt\<close>: the model says which lists the query may return.
\<close>

definition oldestFirst :: "(operation \<Rightarrow> bool) \<Rightarrow> store \<Rightarrow> operation list \<Rightarrow> bool" where
  "oldestFirst p s r =
     (mset r = mset (filter p (operations s))
      \<and> sorted_wrt (\<lambda>a b. o_createdAt a \<le> o_createdAt b) r)"

text \<open>\<^verbatim>\<open>OperationRepository.findByDiscussion(discussionId)\<close>\<close>

definition findByDiscussion :: "store \<Rightarrow> string \<Rightarrow> operation list \<Rightarrow> bool" where
  "findByDiscussion s d r = oldestFirst (\<lambda>x. o_discussionId x = d) s r"

text \<open>\<^verbatim>\<open>OperationModel.getChildren(operationId)\<close>\<close>

definition getChildren :: "store \<Rightarrow> string \<Rightarrow> operation list \<Rightarrow> bool" where
  "getChildren s i r = oldestFirst (\<lambda>x. o_parentId x = Some i) s r"

text \<open>\<^verbatim>\<open>OperationModel.getRootOperations(discussionId)\<close>\<close>

definition getRootOperations :: "store \<Rightarrow> string \<Rightarrow> operation list \<Rightarrow> bool" where
  "getRootOperations s d r = oldestFirst (\<lambda>x. o_discussionId x = d \<and> o_parentId x = None) s r"

text \<open>
  \<^verbatim>\<open>DiscussionRepository.findAll()\<close>: every discussion, \<^verbatim>\<open>createdAt\<close> descending,
  each with its operations, \<^verbatim>\<open>createdAt\<close> ascending.
\<close>

definition findAll :: "store \<Rightarrow> (discussion \<times> operation list) list \<Rightarrow> bool" where
  "findAll s r =
     (mset (map fst r) = mset (discussions s)
      \<and> sorted_wrt (\<lambda>a b. d_createdAt b \<le> d_createdAt a) (map fst r)
      \<and> list_all (\<lambda>(d, xs). findByDiscussion s (d_id d) xs) r)"

section \<open>Stores the controllers can produce\<close>

text \<open>
  The routes that write are \<^verbatim>\<open>POST /api/discussions\<close>, \<^verbatim>\<open>PATCH /api/discussions/:id\<close>
  and \<^verbatim>\<open>POST /api/operations\<close>. A store is reachable when a sequence of such requests,
  with any inputs, leads to it from the empty store.
\<close>

inductive reachable :: "store \<Rightarrow> bool" where
  reachable_empty: "reachable emptyStore"
| reachable_discussion:
    "reachable s \<Longrightarrow> reachable (snd (DiscussionController_create s now startingNumber userId))"
| reachable_update:
    "reachable s \<Longrightarrow> reachable (snd (DiscussionController_update s i startingNumber userId))"
| reachable_operation:
    "reachable s \<Longrightarrow> reachable (snd (OperationController_create s now b userId))"

text \<open>
  \<open>settled s i\<close>: the store \<open>s\<close> is reachable, and on the way to it no update
  changed the starting number of the discussion \<open>i\<close> once that discussion had an
  operation. Its starting number is then the one its operations were created on. Updates
  of other discussions, updates of \<open>i\<close> before its first operation, and update requests
  that are refused or that leave the number as it is, are free.
\<close>

inductive settled :: "store \<Rightarrow> string \<Rightarrow> bool" where
  settled_empty: "settled emptyStore i"
| settled_discussion:
    "settled s i \<Longrightarrow> settled (snd (DiscussionController_create s now startingNumber userId)) i"
| settled_operation:
    "settled s i \<Longrightarrow> settled (snd (OperationController_create s now b userId)) i"
| settled_update:
    "settled s i \<Longrightarrow>
     i \<notin> o_discussionId ` set (operations s)
     \<or> map_option d_startingNumber
         (findUniqueDiscussion (snd (DiscussionController_update s j startingNumber userId)) i)
       = map_option d_startingNumber (findUniqueDiscussion s i) \<Longrightarrow>
     settled (snd (DiscussionController_update s j startingNumber userId)) i"

section \<open>Well-formed stores\<close>

text \<open>
  What every reachable store satisfies. In the operations table, newest first, each row
  has a non-empty identity that no older row has, and a row with a parent names an older
  row of the same discussion: creation order strictly decreases along a parent edge.
\<close>

fun operationsOk :: "operation list \<Rightarrow> bool" where
  "operationsOk [] = True"
| "operationsOk (x # xs) =
     (operationsOk xs \<and> o_id x \<noteq> [] \<and> o_id x \<notin> o_id ` set xs
      \<and> (case o_parentId x of
            None \<Rightarrow> True
          | Some p \<Rightarrow> \<exists>q \<in> set xs. o_id q = p \<and> o_discussionId q = o_discussionId x))"

definition storeOk :: "store \<Rightarrow> bool" where
  "storeOk s =
     (operationsOk (operations s)
      \<and> (\<forall>x \<in> set (operations s). \<exists>k < nextId s. o_id x = newId k)
      \<and> (\<forall>d \<in> set (discussions s). \<exists>k < nextId s. d_id d = newId k)
      \<and> distinct (map d_id (discussions s))
      \<and> distinct (map d_startingNumber (discussions s))
      \<and> o_discussionId ` set (operations s) \<subseteq> d_id ` set (discussions s))"

text \<open>
  Stored results. \<open>childrenOk s\<close>: the result of every row with a parent is what
  \<open>computeResult\<close> gives on the parent's stored result. \<open>rootsOk s i\<close>: the result
  of every row of the discussion \<open>i\<close> with no parent is what \<open>computeResult\<close> gives on
  the discussion's starting number.
\<close>

definition childrenOk :: "store \<Rightarrow> bool" where
  "childrenOk s =
     (\<forall>x \<in> set (operations s).
        case o_parentId x of
          None \<Rightarrow> True
        | Some p \<Rightarrow>
            (case findUniqueOperation s p of
               None \<Rightarrow> False
             | Some q \<Rightarrow>
                 computeResult (o_result q) (o_operationType x) (o_operand x)
                   = Inr (o_result x)))"

definition rootsOk :: "store \<Rightarrow> string \<Rightarrow> bool" where
  "rootsOk s i =
     (\<forall>x \<in> set (operations s).
        o_discussionId x = i \<and> o_parentId x = None \<longrightarrow>
          (case findUniqueDiscussion s i of
             None \<Rightarrow> False
           | Some d \<Rightarrow>
               computeResult (d_startingNumber d) (o_operationType x) (o_operand x)
                 = Inr (o_result x)))"

text \<open>
  \<open>linked None path\<close>: \<open>path\<close> starts at an operation with no parent, and each further
  operation's parent is the one before it. \<open>replay v path\<close> applies \<open>computeResult\<close>
  along the path, from \<open>v\<close>, and lists the values it gets.
\<close>

fun linked :: "string option \<Rightarrow> operation list \<Rightarrow> bool" where
  "linked par [] = True"
| "linked par (x # xs) = (o_parentId x = par \<and> linked (Some (o_id x)) xs)"

fun replay :: "number \<Rightarrow> operation list \<Rightarrow> exn + number list" where
  "replay v [] = Inr []"
| "replay v (x # xs) =
     (case computeResult v (o_operationType x) (o_operand x) of
        Inl e \<Rightarrow> Inl e
      | Inr r \<Rightarrow> (case replay r xs of Inl e \<Rightarrow> Inl e | Inr rs \<Rightarrow> Inr (r # rs)))"

section \<open>A worked scenario\<close>

text \<open>
  The stores of the README's example: a discussion that starts at 42, the operation
  ``ADD 10'' on it, the operation ``MULTIPLY 2'' on that one, and then the author
  changing the starting number to 100.
\<close>

definition scenario1 :: store where
  "scenario1 = snd (DiscussionController_create emptyStore 1 (JNumber 42) ''alice'')"

definition addTen :: operation_body where
  "addTen = \<lparr>discussionId = JString ''c'', parentId = JUndefined,
              operationType = JString ''ADD'', operand = JNumber 10\<rparr>"

definition scenario2 :: store where
  "scenario2 = snd (OperationController_create scenario1 2 addTen ''bob'')"

definition timesTwo :: operation_body where
  "timesTwo = \<lparr>discussionId = JString ''c'', parentId = JString ''c0'',
                operationType = JString ''MULTIPLY'', operand = JNumber 2\<rparr>"

definition scenario3 :: store where
  "scenario3 = snd (OperationController_create scenario2 3 timesTwo ''bob'')"

definition scenarioUpdated :: store where
  "scenarioUpdated = snd (DiscussionController_update scenario3 ''c'' (JNumber 100) ''alice'')"

definition theDiscussion :: discussion where
  "theDiscussion = \<lparr>d_id = ''c'', d_startingNumber = Finite 42, d_authorId = ''alice'',
                     d_createdAt = 1\<rparr>"

definition firstOperation :: operation where
  "firstOperation = \<lparr>o_id = ''c0'', o_discussionId = ''c'', o_parentId = None,
       o_operationType = ''ADD'', o_operand = Finite 10, o_result = Finite 52,
       o_authorId = ''bob'', o_createdAt = 2\<rparr>"

definition secondOperation :: operation where
  "secondOperation = \<lparr>o_id = ''c00'', o_discussionId = ''c'', o_parentId = Some ''c0'',
       o_operationType = ''MULTIPLY'', o_operand = Finite 2, o_result = Finite 104,
       o_authorId = ''bob'', o_createdAt = 3\<rparr>"

text \<open>
  A second discussion, started at 7 by another user, and its starting number then
  changed to 8; from the store with the one operation, a second operation on the
  starting number written at the same clock value as the first; and a discussion whose
  starting number was given as the string \<^verbatim>\<open>xyz\<close>.
\<close>

definition scenarioTwo :: store where
  "scenarioTwo = snd (DiscussionController_create scenario3 4 (JNumber 7) ''bob'')"

definition otherDiscussion :: discussion where
  "otherDiscussion = \<lparr>d_id = ''c000'', d_startingNumber = Finite 7, d_authorId = ''bob'',
                       d_createdAt = 4\<rparr>"

definition scenarioOtherUpdated :: store where
  "scenarioOtherUpdated =
     snd (DiscussionController_update scenarioTwo ''c000'' (JNumber 8) ''bob'')"

definition scenarioNaN :: store where
  "scenarioNaN = snd (DiscussionController_create emptyStore 1 (JString ''xyz'') ''alice'')"

definition nanDiscussion :: discussion where
  "nanDiscussion = \<lparr>d_id = ''c'', d_startingNumber = NaN, d_authorId = ''alice'',
                     d_createdAt = 1\<rparr>"

definition addOne :: operation_body where
  "addOne = \<lparr>discussionId = JString ''c'', parentId = JNull,
              operationType = JString ''ADD'', operand = JString ''1''\<rparr>"

definition scenarioTie :: store where
  "scenarioTie = snd (OperationController_create scenario2 2 addOne ''carol'')"

definition tieOperation :: operation where
  "tieOperation = \<lparr>o_id = ''c00'', o_discussionId = ''c'', o_parentId = None,
       o_operationType = ''ADD'', o_operand = Finite 1, o_result = Finite 43,
       o_authorId = ''carol'', o_createdAt = 2\<rparr>"

section \<open>Result computation: properties\<close>

subsection \<open>Rounding\<close>

lemma find_upto_Some:
  "find P [i..j] = Some e \<longleftrightarrow> i \<le> e \<and> e \<le> j \<and> P e \<and> (\<forall>k. i \<le> k \<and> k < e \<longrightarrow> \<not> P k)"
proof (induction "nat (j - i + 1)" arbitrary: i)
  case 0
  then have "j < i" by simp
  then show ?case by auto
next
  case (Suc n)
  then have le: "i \<le> j" by simp
  have rec: "[i..j] = i # [i + 1..j]" using le by (simp add: upto_rec1)
  have n: "n = nat (j - (i + 1) + 1)" using Suc.hyps(2) by simp
  show ?case
  proof (cases "P i")
    case True
    then show ?thesis using le rec by (auto simp: not_less)
  next
    case False
    have "find P [i..j] = find P [i + 1..j]" using False rec by simp
    also have "\<dots> = Some e \<longleftrightarrow> i + 1 \<le> e \<and> e \<le> j \<and> P e \<and> (\<forall>k. i + 1 \<le> k \<and> k < e \<longrightarrow> \<not> P k)"
      using Suc.hyps(1) [OF n] .
    also have "\<dots> \<longleftrightarrow> i \<le> e \<and> e \<le> j \<and> P e \<and> (\<forall>k. i \<le> k \<and> k < e \<longrightarrow> \<not> P k)"
      using False by (metis add1_zle_eq order_le_less zless_imp_add1_zle)
    finally show ?thesis .
  qed
qed

lemma two_powi_mono: "m \<le> n \<Longrightarrow> (2::real) powi m \<le> 2 powi n"
  by (rule power_int_increasing) simp_all

lemma ulpExponent_eq:
  assumes "- 1074 \<le> e" "e \<le> 971" "a < 2 powi (e + 53)" "e = - 1074 \<or> 2 powi (e + 52) \<le> a"
  shows "ulpExponent a = e"
proof -
  have "\<not> a < 2 powi (k + 53)" if "- 1074 \<le> k" "k < e" for k
  proof -
    have "e \<noteq> - 1074" using that by simp
    then have "2 powi (e + 52) \<le> a" using assms(4) by simp
    moreover have "(2::real) powi (k + 53) \<le> 2 powi (e + 52)"
      using that by (intro two_powi_mono) simp
    ultimately show ?thesis by simp
  qed
  then have "find (\<lambda>e. a < 2 powi (e + 53)) [- 1074..971] = Some e"
    unfolding find_upto_Some using assms(1-3) by blast
  then show ?thesis by (simp only: ulpExponent_def option.case)
qed

lemma ulpExponent_top:
  assumes "2 ^ 1024 \<le> a"
  shows "ulpExponent a = 972"
proof -
  have "\<not> a < 2 powi (k + 53)" if "k \<le> 971" for k
  proof -
    have "(2::real) powi (k + 53) \<le> 2 powi 1024"
      using that by (intro two_powi_mono) simp
    then show ?thesis using assms by simp
  qed
  then have "find (\<lambda>e. a < 2 powi (e + 53)) [- 1074..971] = None"
    unfolding find_None_iff set_upto atLeastAtMost_iff by blast
  then show ?thesis by (simp only: ulpExponent_def option.case)
qed

lemma ulpExponent_cases:
  obtains (top) "2 ^ 1024 \<le> a" "ulpExponent a = 972"
  | (sub) "a < 2 powi (- 1021)" "ulpExponent a = - 1074"
  | (normal) e where "ulpExponent a = e" "- 1074 < e" "e \<le> 971"
      "2 powi (e + 52) \<le> a" "a < 2 powi (e + 53)"
proof (cases "find (\<lambda>e. a < 2 powi (e + 53)) [- 1074..971]")
  case None
  then have "\<forall>k. - 1074 \<le> k \<and> k \<le> 971 \<longrightarrow> \<not> a < 2 powi (k + 53)"
    unfolding find_None_iff set_upto atLeastAtMost_iff by blast
  then have "\<not> a < 2 powi (971 + 53)" by (metis order_refl neg_numeral_le_numeral)
  then have "2 ^ 1024 \<le> a" by simp
  then show ?thesis using ulpExponent_top top by blast
next
  case (Some e)
  then have e: "- 1074 \<le> e" "e \<le> 971" "a < 2 powi (e + 53)"
    "\<forall>k. - 1074 \<le> k \<and> k < e \<longrightarrow> \<not> a < 2 powi (k + 53)"
    unfolding find_upto_Some by blast+
  have u: "ulpExponent a = e" using Some by (simp only: ulpExponent_def option.case)
  show ?thesis
  proof (cases "e = - 1074")
    case True
    then show ?thesis using e(3) u sub by simp
  next
    case False
    have "- 1074 \<le> e - 1 \<and> e - 1 < e" using False e(1) by simp
    then have "\<not> a < 2 powi (e - 1 + 53)" using e(4) by blast
    moreover have "e - 1 + 53 = e + 52" by simp
    ultimately have "2 powi (e + 52) \<le> a" by (simp only: not_less)
    moreover have "- 1074 < e" using False e(1) by simp
    ultimately show ?thesis using normal [of e] u e(2,3) by blast
  qed
qed

lemma roundHalfEven_int [simp]: "roundHalfEven (of_int k) = k"
  by (simp add: roundHalfEven_def)

lemma roundDouble_exact:
  assumes "isDouble x"
  shows "roundDouble x = Finite x"
proof -
  let ?e = "ulpExponent \<bar>x\<bar>"
  let ?t = "\<bar>x\<bar> / 2 powi ?e"
  have t: "of_int \<lfloor>?t\<rfloor> = ?t" and small: "\<bar>x\<bar> < 2 ^ 1024"
    using assms by (simp_all add: isDouble_def Let_def)
  have "roundHalfEven ?t = \<lfloor>?t\<rfloor>"
    using roundHalfEven_int [of "\<lfloor>?t\<rfloor>"] t by simp
  then have "of_int (roundHalfEven ?t) = ?t"
    using t by (simp only:)
  then have "of_int (roundHalfEven ?t) * 2 powi ?e = ?t * 2 powi ?e"
    by (simp only:)
  also have "\<dots> = \<bar>x\<bar>" by simp
  finally have y: "of_int (roundHalfEven ?t) * 2 powi ?e = \<bar>x\<bar>" .
  have "roundDouble x =
      (if 2 ^ 1024 \<le> \<bar>x\<bar> then Infinity (0 < x) else Finite (if 0 < x then \<bar>x\<bar> else - \<bar>x\<bar>))"
    unfolding roundDouble_def Let_def y ..
  then show ?thesis using small by simp
qed

lemma isDouble_int:
  assumes "\<bar>n\<bar> \<le> 2 ^ 53"
  shows "isDouble (of_int n)"
proof -
  let ?a = "\<bar>real_of_int n\<bar>"
  have a: "?a = of_int \<bar>n\<bar>" by simp
  have le: "?a \<le> 2 ^ 53" using assms by (metis a of_int_le_iff of_int_numeral of_int_power)
  have small: "?a < 2 ^ 1024"
  proof -
    have "(2::real) ^ 53 < 2 ^ 1024" by simp
    then show ?thesis using le by linarith
  qed
  have "\<exists>k::int. ?a / 2 powi ulpExponent ?a = of_int k"
  proof (cases ?a rule: ulpExponent_cases)
    case top
    then show ?thesis using small by simp
  next
    case sub
    have "?a / 2 powi (- 1074) = of_int (\<bar>n\<bar> * 2 ^ 1074)"
      by (simp add: power_int_minus field_simps)
    then show ?thesis using sub by metis
  next
    case (normal e)
    have "e \<le> 1"
    proof (rule ccontr)
      assume "\<not> e \<le> 1"
      then have "(2::real) powi 54 \<le> 2 powi (e + 52)" by (intro two_powi_mono) simp
      then show False using normal(4) le by simp
    qed
    show ?thesis
    proof (cases "e \<le> 0")
      case True
      have "?a / 2 powi e = ?a * 2 powi (- e)"
        by (simp add: power_int_minus field_simps)
      also have "\<dots> = of_int (\<bar>n\<bar> * 2 ^ nat (- e))"
        using True by (simp add: power_int_def)
      finally show ?thesis using normal(1) by metis
    next
      case False
      then have e1: "e = 1" using \<open>e \<le> 1\<close> by simp
      then have "?a = 2 ^ 53" using normal(4) le by simp
      then have "?a / 2 powi e = of_int (2 ^ 52)" using e1 by simp
      then show ?thesis using normal(1) by metis
    qed
  qed
  then obtain k :: int where "?a / 2 powi ulpExponent ?a = of_int k" ..
  then show ?thesis using small by (simp add: isDouble_def Let_def)
qed

lemma roundDouble_of_int: "\<bar>n\<bar> \<le> 2 ^ 53 \<Longrightarrow> roundDouble (of_int n) = Finite (of_int n)"
  by (rule roundDouble_exact) (rule isDouble_int)

lemma roundDouble_numeral [simp]:
  "numeral k \<le> (2::int) ^ 53 \<Longrightarrow> roundDouble (numeral k) = Finite (numeral k)"
  "numeral k \<le> (2::int) ^ 53 \<Longrightarrow> roundDouble (- numeral k) = Finite (- numeral k)"
  "roundDouble 0 = Finite 0" "roundDouble 1 = Finite 1"
  using roundDouble_of_int [of "numeral k"] roundDouble_of_int [of "- numeral k"]
    roundDouble_of_int [of 0] roundDouble_of_int [of 1]
  by simp_all

lemma roundDouble_tenth: "roundDouble (1 / 10) = Finite (3602879701896397 / 2 ^ 55)"
proof -
  have e: "ulpExponent \<bar>1 / 10\<bar> = - 56"
    by (rule ulpExponent_eq) simp_all
  have r: "roundHalfEven (\<bar>1 / 10\<bar> / 2 powi - 56) = 7205759403792794"
    by (simp add: roundHalfEven_def Let_def)
  show ?thesis
    unfolding roundDouble_def Let_def e r by simp
qed

lemma roundDouble_tie: "roundDouble (2 ^ 53 + 1) = Finite (2 ^ 53)"
proof -
  have e: "ulpExponent \<bar>2 ^ 53 + 1\<bar> = 1"
    by (rule ulpExponent_eq) simp_all
  have r: "roundHalfEven (\<bar>2 ^ 53 + 1\<bar> / 2 powi 1) = 2 ^ 52"
    by (simp add: roundHalfEven_def Let_def)
  show ?thesis
    unfolding roundDouble_def Let_def e r by simp
qed

lemma roundDouble_overflow: "roundDouble (2 ^ 1023 * 2) = Infinity True"
proof -
  have e: "ulpExponent \<bar>2 ^ 1023 * 2\<bar> = 972"
    by (rule ulpExponent_top) simp
  have "\<bar>2 ^ 1023 * 2\<bar> / 2 powi 972 = (of_int (2 ^ 52) :: real)"
    by simp
  then have r: "roundHalfEven (\<bar>2 ^ 1023 * 2\<bar> / 2 powi 972) = 2 ^ 52"
    by (simp only: roundHalfEven_int)
  show ?thesis
    unfolding roundDouble_def Let_def e r by simp
qed

text \<open>
  What \<open>roundDouble\<close> gives when it is finite is a double, it is within half a spacing
  of the number rounded, and no double is nearer to that number.
\<close>

lemma roundHalfEven_nearest: "\<bar>of_int (roundHalfEven t) - t\<bar> \<le> \<bar>of_int m - t\<bar>"
proof -
  let ?f = "\<lfloor>t\<rfloor>"
  have f: "of_int ?f \<le> t" "t < of_int ?f + 1" by linarith+
  consider "m \<le> ?f" | "?f + 1 \<le> m" by linarith
  then have m: "of_int m \<le> (of_int ?f :: real) \<or> (of_int ?f :: real) + 1 \<le> of_int m"
  proof cases
    case 1
    then show ?thesis by simp
  next
    case 2
    then have "(of_int (?f + 1) :: real) \<le> of_int m" by (simp only: of_int_le_iff)
    then show ?thesis by simp
  qed
  have "roundHalfEven t = ?f \<and> t - of_int ?f \<le> 1 / 2
      \<or> roundHalfEven t = ?f + 1 \<and> 1 / 2 \<le> t - of_int ?f"
    by (auto simp: roundHalfEven_def Let_def)
  then show ?thesis
  proof
    assume a: "roundHalfEven t = ?f \<and> t - of_int ?f \<le> 1 / 2"
    then have "of_int (roundHalfEven t) = (of_int ?f :: real)" by simp
    then show ?thesis using a f m by linarith
  next
    assume a: "roundHalfEven t = ?f + 1 \<and> 1 / 2 \<le> t - of_int ?f"
    then have "of_int (roundHalfEven t) = (of_int ?f :: real) + 1" by simp
    then show ?thesis using a f m by linarith
  qed
qed

lemma roundHalfEven_half: "\<bar>of_int (roundHalfEven t) - t\<bar> \<le> 1 / 2"
proof -
  let ?f = "\<lfloor>t\<rfloor>"
  have f: "of_int ?f \<le> t" "t < of_int ?f + 1" by linarith+
  have "roundHalfEven t = ?f \<and> t - of_int ?f \<le> 1 / 2
      \<or> roundHalfEven t = ?f + 1 \<and> 1 / 2 \<le> t - of_int ?f"
    by (auto simp: roundHalfEven_def Let_def)
  then show ?thesis
  proof
    assume a: "roundHalfEven t = ?f \<and> t - of_int ?f \<le> 1 / 2"
    then have "of_int (roundHalfEven t) = (of_int ?f :: real)" by simp
    then show ?thesis using a f by linarith
  next
    assume a: "roundHalfEven t = ?f + 1 \<and> 1 / 2 \<le> t - of_int ?f"
    then have "of_int (roundHalfEven t) = (of_int ?f :: real) + 1" by simp
    then show ?thesis using a f by linarith
  qed
qed

lemma roundHalfEven_ge: "of_int k \<le> t \<Longrightarrow> k \<le> roundHalfEven t"
proof -
  assume "of_int k \<le> t"
  then have "k \<le> \<lfloor>t\<rfloor>" by (simp add: le_floor_iff)
  then show ?thesis by (simp add: roundHalfEven_def Let_def)
qed

lemma roundHalfEven_le: "t \<le> of_int k \<Longrightarrow> roundHalfEven t \<le> k"
proof (cases "t = of_int k")
  case True
  then show ?thesis by simp
next
  case False
  assume "t \<le> of_int k"
  then have "t < of_int k" using False by simp
  then have "\<lfloor>t\<rfloor> < k" by (simp add: floor_less_iff)
  then show ?thesis by (simp add: roundHalfEven_def Let_def)
qed


lemma two_powi_split: "(2::real) powi (e + k) = 2 powi k * 2 powi e"
  by (simp add: power_int_add)

lemma div_powi_less:
  assumes "a < 2 powi (e + k)"
  shows "a / 2 powi e < (2::real) powi k"
proof -
  have "a < 2 powi k * 2 powi e" using assms by (simp only: two_powi_split)
  then show ?thesis by (simp add: pos_divide_less_eq)
qed

lemma div_powi_ge:
  assumes "2 powi (e + k) \<le> a"
  shows "(2::real) powi k \<le> a / 2 powi e"
proof -
  have "2 powi k * 2 powi e \<le> a" using assms by (simp only: two_powi_split)
  then show ?thesis by (simp add: pos_le_divide_eq)
qed

lemma isDouble_uminus [simp]: "isDouble (- x) = isDouble x"
  by (simp add: isDouble_def)

lemma isDouble_scaled:
  assumes e: "- 1074 \<le> e" "e \<le> 971" and n: "0 \<le> n" "n \<le> 2 ^ 53"
    and low: "e = - 1074 \<or> 2 ^ 52 \<le> n"
    and small: "of_int n * 2 powi e < (2::real) ^ 1024"
  shows "isDouble (of_int n * 2 powi e)"
proof -
  let ?y = "real_of_int n * 2 powi e"
  have pos: "0 \<le> ?y" using n(1) by simp
  then have a: "\<bar>?y\<bar> = ?y" by simp
  have "\<exists>k::int. ?y / 2 powi ulpExponent ?y = of_int k"
  proof (cases "n < 2 ^ 53")
    case True
    then have "real_of_int n < 2 ^ 53"
      by (metis of_int_less_iff of_int_numeral of_int_power)
    then have "?y < 2 ^ 53 * 2 powi e" by simp
    then have up: "?y < 2 powi (e + 53)" by (simp add: two_powi_split)
    have "e = - 1074 \<or> 2 powi (e + 52) \<le> ?y"
    proof (cases "e = - 1074")
      case True
      then show ?thesis by simp
    next
      case False
      then have "2 ^ 52 \<le> n" using low by simp
      then have "(2::real) ^ 52 \<le> real_of_int n"
        by (metis of_int_le_iff of_int_numeral of_int_power)
      then have "2 ^ 52 * 2 powi e \<le> ?y" by simp
      then show ?thesis by (simp add: two_powi_split)
    qed
    then have "ulpExponent ?y = e" using e up by (intro ulpExponent_eq)
    then have "?y / 2 powi ulpExponent ?y = of_int n" by simp
    then show ?thesis ..
  next
    case False
    then have n53: "n = 2 ^ 53" using n(2) by simp
    then have y: "?y = 2 powi (e + 53)" by (simp add: two_powi_split)
    have "e \<noteq> 971"
    proof
      assume "e = 971"
      then have "?y = 2 ^ 1024" using y by simp
      then show False using small by simp
    qed
    then have e1: "- 1074 \<le> e + 1" "e + 1 \<le> 971" using e by simp_all
    have "?y < 2 powi (e + 1 + 53)"
      unfolding y by (rule power_int_strict_increasing) simp_all
    moreover have "2 powi (e + 1 + 52) \<le> ?y"
      unfolding y by (rule two_powi_mono) simp
    ultimately have u: "ulpExponent ?y = e + 1" using e1 by (intro ulpExponent_eq) simp_all
    have eq: "e + 53 = e + 1 + 52" by simp
    have "?y = 2 powi (e + 1 + 52)" unfolding y eq ..
    then have "?y = 2 powi 52 * 2 powi (e + 1)" by (simp only: two_powi_split)
    then have "?y / 2 powi (e + 1) = of_int (2 ^ 52)" by simp
    then show ?thesis using u by metis
  qed
  then obtain k :: int where "?y / 2 powi ulpExponent ?y = of_int k" ..
  then show ?thesis using small a by (simp add: isDouble_def Let_def)
qed

lemma roundDouble_isDouble:
  assumes "roundDouble x = Finite y"
  shows "isDouble y"
proof -
  let ?a = "\<bar>x\<bar>"
  let ?e = "ulpExponent ?a"
  let ?n = "roundHalfEven (?a / 2 powi ?e)"
  let ?y = "real_of_int ?n * 2 powi ?e"
  have small: "?y < 2 ^ 1024" and y: "y = (if 0 < x then ?y else - ?y)"
    using assms by (auto simp: roundDouble_def Let_def split: if_splits)
  have "real_of_int 0 \<le> ?a / 2 powi ?e" by simp
  then have n0: "0 \<le> ?n" by (rule roundHalfEven_ge)
  have "isDouble ?y"
  proof (cases ?a rule: ulpExponent_cases)
    case top
    have "2 powi (972 + 52) \<le> ?a" using top(1) by simp
    then have "2 powi 52 \<le> ?a / 2 powi 972" by (rule div_powi_ge)
    then have "real_of_int (2 ^ 52) \<le> ?a / 2 powi 972" by simp
    then have "2 ^ 52 \<le> ?n" unfolding top(2) by (rule roundHalfEven_ge)
    then have "(2::real) ^ 52 \<le> real_of_int ?n"
      by (metis of_int_le_iff of_int_numeral of_int_power)
    then have "2 ^ 52 * 2 powi 972 \<le> real_of_int ?n * 2 powi 972" by simp
    moreover have "(2::real) ^ 52 * 2 powi 972 = 2 ^ 1024" by simp
    ultimately have "2 ^ 1024 \<le> ?y" unfolding top(2) by (simp only:)
    then show ?thesis using small by simp
  next
    case sub
    have "?a < 2 powi (- 1074 + 53)" using sub(1) by simp
    then have "?a / 2 powi (- 1074) < 2 powi 53" by (rule div_powi_less)
    then have "?a / 2 powi (- 1074) \<le> real_of_int (2 ^ 53)" by simp
    then have "roundHalfEven (?a / 2 powi (- 1074)) \<le> 2 ^ 53" by (rule roundHalfEven_le)
    then have "?n \<le> 2 ^ 53" unfolding sub(2) .
    then show ?thesis
      using n0 small sub(2) by (intro isDouble_scaled) simp_all
  next
    case (normal e)
    have "?a / 2 powi e < 2 powi 53" using normal(5) by (rule div_powi_less)
    then have "?a / 2 powi e \<le> real_of_int (2 ^ 53)" by simp
    then have "roundHalfEven (?a / 2 powi e) \<le> 2 ^ 53" by (rule roundHalfEven_le)
    then have up: "?n \<le> 2 ^ 53" unfolding normal(1) .
    have "2 powi 52 \<le> ?a / 2 powi e" using normal(4) by (rule div_powi_ge)
    then have "real_of_int (2 ^ 52) \<le> ?a / 2 powi e" by simp
    then have "2 ^ 52 \<le> roundHalfEven (?a / 2 powi e)" by (rule roundHalfEven_ge)
    then have low: "2 ^ 52 \<le> ?n" unfolding normal(1) .
    show ?thesis
      using n0 small up low normal(1,2,3) by (intro isDouble_scaled) simp_all
  qed
  moreover have "isDouble y = isDouble ?y"
    unfolding y by (cases "0 < x") (simp_all only: if_True if_False isDouble_uminus)
  ultimately show ?thesis by (simp only:)
qed

lemma roundDouble_error:
  assumes "roundDouble x = Finite y"
  shows "\<bar>y - x\<bar> \<le> 2 powi ulpExponent \<bar>x\<bar> / 2"
proof -
  let ?a = "\<bar>x\<bar>"
  let ?e = "ulpExponent ?a"
  let ?t = "?a / 2 powi ?e"
  let ?n = "roundHalfEven ?t"
  let ?y = "real_of_int ?n * 2 powi ?e"
  have y: "y = (if 0 < x then ?y else - ?y)"
    using assms by (auto simp: roundDouble_def Let_def split: if_splits)
  have half: "\<bar>real_of_int ?n - ?t\<bar> \<le> 1 / 2" by (rule roundHalfEven_half)
  have "\<bar>?y - ?a\<bar> = \<bar>real_of_int ?n - ?t\<bar> * 2 powi ?e"
  proof -
    have "?y - ?a = (real_of_int ?n - ?t) * 2 powi ?e" by (simp add: algebra_simps)
    then show ?thesis by (simp only: abs_mult) simp
  qed
  also have "\<dots> \<le> 1 / 2 * 2 powi ?e"
    using half by (intro mult_right_mono) simp_all
  finally have "\<bar>?y - ?a\<bar> \<le> 2 powi ?e / 2" by simp
  moreover have "\<bar>y - x\<bar> = \<bar>?y - ?a\<bar>"
  proof (cases "0 < x")
    case True
    then show ?thesis unfolding y by simp
  next
    case False
    then have "y - x = - (?y - ?a)" unfolding y by simp
    then show ?thesis by (simp only: abs_minus_cancel)
  qed
  ultimately show ?thesis by simp
qed


lemma ulpExponent_bounds:
  assumes "a < 2 ^ 1024"
  shows "- 1074 \<le> ulpExponent a \<and> ulpExponent a \<le> 971 \<and> a < 2 powi (ulpExponent a + 53)"
proof (cases a rule: ulpExponent_cases)
  case top
  then show ?thesis using assms by simp
next
  case sub
  then show ?thesis by simp
next
  case (normal e)
  then show ?thesis by simp
qed

lemma isDouble_multiple:
  assumes "isDouble z" "- 1074 \<le> e"
  shows "(\<exists>m::int. z = of_int m * 2 powi e) \<or> (- 1074 < e \<and> \<bar>z\<bar> < 2 powi (e + 52))"
proof -
  let ?u = "ulpExponent \<bar>z\<bar>"
  have small: "\<bar>z\<bar> < 2 ^ 1024" using assms(1) by (simp add: isDouble_def)
  obtain k :: int where "\<bar>z\<bar> / 2 powi ?u = of_int k"
    using assms(1) by (metis isDouble_def)
  then have k: "\<bar>z\<bar> = of_int k * 2 powi ?u" by (simp add: field_simps)
  note u = ulpExponent_bounds [OF small]
  show ?thesis
  proof (cases "e \<le> ?u")
    case True
    define d where "d = nat (?u - e)"
    have "e + int d = ?u" using True by (simp add: d_def)
    then have "(2::real) powi ?u = 2 powi (e + int d)" by (simp only:)
    also have "\<dots> = 2 powi int d * 2 powi e" by (rule two_powi_split)
    also have "\<dots> = 2 ^ d * 2 powi e" by simp
    finally have "\<bar>z\<bar> = of_int k * (2 ^ d * 2 powi e)" using k by (simp only:)
    then have "\<bar>z\<bar> = of_int (k * 2 ^ d) * 2 powi e" by simp
    then have "z = of_int (k * 2 ^ d) * 2 powi e \<or> z = of_int (- (k * 2 ^ d)) * 2 powi e"
      by (cases "0 \<le> z") simp_all
    then show ?thesis by blast
  next
    case False
    then have "?u + 53 \<le> e + 52" by simp
    then have "(2::real) powi (?u + 53) \<le> 2 powi (e + 52)" by (rule two_powi_mono)
    then have "\<bar>z\<bar> < 2 powi (e + 52)" using u by linarith
    moreover have "- 1074 < e" using False u by linarith
    ultimately show ?thesis by simp
  qed
qed

lemma roundDouble_Finite_small:
  assumes "roundDouble x = Finite y"
  shows "\<bar>x\<bar> < 2 ^ 1024"
proof (rule ccontr)
  let ?a = "\<bar>x\<bar>"
  let ?n = "roundHalfEven (?a / 2 powi ulpExponent ?a)"
  assume "\<not> ?a < 2 ^ 1024"
  then have top: "2 ^ 1024 \<le> ?a" by simp
  then have e: "ulpExponent ?a = 972" by (rule ulpExponent_top)
  have "2 powi (972 + 52) \<le> ?a" using top by simp
  then have "2 powi 52 \<le> ?a / 2 powi 972" by (rule div_powi_ge)
  then have "real_of_int (2 ^ 52) \<le> ?a / 2 powi 972" by simp
  then have "2 ^ 52 \<le> ?n" unfolding e by (rule roundHalfEven_ge)
  then have "(2::real) ^ 52 \<le> real_of_int ?n"
    by (metis of_int_le_iff of_int_numeral of_int_power)
  then have "2 ^ 52 * 2 powi 972 \<le> real_of_int ?n * 2 powi 972" by simp
  moreover have "(2::real) ^ 52 * 2 powi 972 = 2 ^ 1024" by simp
  ultimately have "2 ^ 1024 \<le> real_of_int ?n * 2 powi ulpExponent ?a"
    unfolding e by (simp only:)
  then show False using assms by (simp add: roundDouble_def Let_def)
qed

lemma roundDouble_nearest:
  assumes "roundDouble x = Finite y" "isDouble z"
  shows "\<bar>y - x\<bar> \<le> \<bar>z - x\<bar>"
proof -
  let ?a = "\<bar>x\<bar>"
  let ?e = "ulpExponent ?a"
  let ?t = "?a / 2 powi ?e"
  let ?n = "roundHalfEven ?t"
  let ?y = "real_of_int ?n * 2 powi ?e"
  have y: "y = (if 0 < x then ?y else - ?y)"
    using assms(1) by (auto simp: roundDouble_def Let_def split: if_splits)
  note e = ulpExponent_bounds [OF roundDouble_Finite_small [OF assms(1)]]
  have multiple: "\<bar>?y - ?a\<bar> \<le> \<bar>real_of_int m * 2 powi ?e - ?a\<bar>" for m
  proof -
    have "?y - ?a = (real_of_int ?n - ?t) * 2 powi ?e" by (simp add: algebra_simps)
    then have 1: "\<bar>?y - ?a\<bar> = \<bar>real_of_int ?n - ?t\<bar> * 2 powi ?e"
      by (simp only: abs_mult) simp
    have "real_of_int m * 2 powi ?e - ?a = (real_of_int m - ?t) * 2 powi ?e"
      by (simp add: algebra_simps)
    then have 2: "\<bar>real_of_int m * 2 powi ?e - ?a\<bar> = \<bar>real_of_int m - ?t\<bar> * 2 powi ?e"
      by (simp only: abs_mult) simp
    have "\<bar>real_of_int ?n - ?t\<bar> * 2 powi ?e \<le> \<bar>real_of_int m - ?t\<bar> * 2 powi ?e"
      using roundHalfEven_nearest [of ?t m] by (intro mult_right_mono) simp_all
    then show ?thesis unfolding 1 2 .
  qed
  have near: "\<bar>?y - ?a\<bar> \<le> \<bar>w - ?a\<bar>" if w: "isDouble w" for w
  proof -
    have "- 1074 \<le> ?e" using e by simp
    from isDouble_multiple [OF w this]
    consider (mult) m :: int where "w = real_of_int m * 2 powi ?e"
      | (low) "- 1074 < ?e" "\<bar>w\<bar> < 2 powi (?e + 52)" by blast
    then show ?thesis
    proof cases
      case (mult m)
      show ?thesis unfolding mult by (rule multiple)
    next
      case low
    have "2 powi (?e + 52) \<le> ?a"
    proof (cases ?a rule: ulpExponent_cases)
      case top
      then show ?thesis using e by simp
    next
      case sub
      then show ?thesis using low(1) by simp
    next
      case (normal e')
      then show ?thesis by simp
    qed
    moreover have "(2::real) powi (?e + 52) = real_of_int (2 ^ 52) * 2 powi ?e"
      by (simp add: two_powi_split)
    ultimately have "\<bar>?y - ?a\<bar> \<le> \<bar>2 powi (?e + 52) - ?a\<bar>"
      using multiple [of "2 ^ 52"] by (simp only:)
    moreover have "w < 2 powi (?e + 52)" using low(2) by linarith
    ultimately show ?thesis using \<open>2 powi (?e + 52) \<le> ?a\<close> by linarith
    qed
  qed
  show ?thesis
  proof (cases "0 < x")
    case True
    then show ?thesis using near [OF assms(2)] unfolding y by simp
  next
    case False
    have "isDouble (- z)" using assms(2) by simp
    from near [OF this] have "\<bar>?y - ?a\<bar> \<le> \<bar>- z - ?a\<bar>" .
    moreover have "y - x = - (?y - ?a)" using False unfolding y by simp
    moreover have "z - x = - (- z - ?a)" using False by simp
    ultimately show ?thesis by (simp only: abs_minus_cancel)
  qed
qed

subsection \<open>computeResult\<close>

text \<open>
  Claim C1, as the code has it. On finite numbers \<open>computeResult\<close> gives the exact sum,
  difference, product and (for a divisor that is not zero) quotient rounded to a double:
  a double that no other double is nearer to the exact result than, and the exact result
  itself whenever that is a double. Dividing by zero throws ``Division by zero is not
  allowed'' whatever the previous value, and an operation that is none of the four
  strings throws ``Invalid operation type''. The result is a function of the three
  arguments alone.
\<close>

theorem computeResult_correct:
  "computeResult (Finite v) ''ADD'' (Finite w) = Inr (roundDouble (v + w))
   \<and> computeResult (Finite v) ''SUBTRACT'' (Finite w) = Inr (roundDouble (v - w))
   \<and> computeResult (Finite v) ''MULTIPLY'' (Finite w) = Inr (roundDouble (v * w))
   \<and> (w \<noteq> 0 \<longrightarrow>
        computeResult (Finite v) ''DIVIDE'' (Finite w) = Inr (roundDouble (v / w)))
   \<and> (isDouble (v + w) \<longrightarrow>
        computeResult (Finite v) ''ADD'' (Finite w) = Inr (Finite (v + w)))
   \<and> (isDouble (v - w) \<longrightarrow>
        computeResult (Finite v) ''SUBTRACT'' (Finite w) = Inr (Finite (v - w)))
   \<and> (isDouble (v * w) \<longrightarrow>
        computeResult (Finite v) ''MULTIPLY'' (Finite w) = Inr (Finite (v * w)))
   \<and> (w \<noteq> 0 \<and> isDouble (v / w) \<longrightarrow>
        computeResult (Finite v) ''DIVIDE'' (Finite w) = Inr (Finite (v / w)))
   \<and> computeResult p ''DIVIDE'' (Finite 0) = Inl (Error ''Division by zero is not allowed'')
   \<and> (k \<notin> set validOperations \<longrightarrow>
        computeResult p k x = Inl (Error (''Invalid operation type: '' @ k)))
   \<and> (roundDouble u = Finite y \<and> isDouble z \<longrightarrow> isDouble y \<and> \<bar>y - u\<bar> \<le> \<bar>z - u\<bar>)"
proof -
  have near: "roundDouble u = Finite y \<and> isDouble z \<longrightarrow> isDouble y \<and> \<bar>y - u\<bar> \<le> \<bar>z - u\<bar>"
    using roundDouble_isDouble [of u y] roundDouble_nearest [of u y z] by blast
  show ?thesis
    by (intro conjI near)
       (auto simp: computeResult_def js_sub_def strict_eq_def validOperations_def
          roundDouble_exact)
qed

theorem computeResult_correct_witness:
  "isDouble (42 + 10) \<and> isDouble (42 - 10) \<and> isDouble (42 * 2) \<and> isDouble (42 / 7)
   \<and> computeResult (Finite 42) ''ADD'' (Finite 10) = Inr (Finite 52)
   \<and> computeResult (Finite 42) ''SUBTRACT'' (Finite 10) = Inr (Finite 32)
   \<and> computeResult (Finite 42) ''MULTIPLY'' (Finite 2) = Inr (Finite 84)
   \<and> computeResult (Finite 42) ''DIVIDE'' (Finite 7) = Inr (Finite 6)
   \<and> computeResult (Finite 1) ''DIVIDE'' (Finite 10)
       = Inr (Finite (3602879701896397 / 2 ^ 55))
   \<and> computeResult (Finite 5) ''DIVIDE'' (Finite 0)
       = Inl (Error ''Division by zero is not allowed'')
   \<and> computeResult (Finite 5) ''POWER'' (Finite 2)
       = Inl (Error ''Invalid operation type: POWER'')
   \<and> roundDouble (1 / 10) = Finite (3602879701896397 / 2 ^ 55) \<and> isDouble 0
   \<and> isDouble (3602879701896397 / 2 ^ 55)
   \<and> \<bar>3602879701896397 / 2 ^ 55 - 1 / 10\<bar> \<le> \<bar>0 - 1 / (10::real)\<bar>"
proof -
  have d: "isDouble (42 + 10)" "isDouble (42 - 10)" "isDouble (42 * 2)" "isDouble (42 / 7)"
    using isDouble_int [of 52] isDouble_int [of 32] isDouble_int [of 84] isDouble_int [of 6]
    by simp_all
  have z: "isDouble 0" using isDouble_int [of 0] by simp
  note a = computeResult_correct [where v = 42 and w = 10 and p = "Finite 5"
      and k = "''POWER''" and x = "Finite 2" and u = "1 / 10"
      and y = "3602879701896397 / 2 ^ 55" and z = 0]
  note b = computeResult_correct [where v = 42 and w = 2]
  note c = computeResult_correct [where v = 42 and w = 7]
  note e = computeResult_correct [where v = 1 and w = 10]
  have 8: "isDouble (3602879701896397 / 2 ^ 55)
      \<and> \<bar>3602879701896397 / 2 ^ 55 - 1 / 10\<bar> \<le> \<bar>0 - 1 / (10::real)\<bar>"
    using a roundDouble_tenth z by blast
  have 1: "computeResult (Finite 42) ''ADD'' (Finite 10) = Inr (Finite 52)"
    using a d(1) by simp
  have 2: "computeResult (Finite 42) ''SUBTRACT'' (Finite 10) = Inr (Finite 32)"
    using a d(2) by simp
  have 3: "computeResult (Finite 42) ''MULTIPLY'' (Finite 2) = Inr (Finite 84)"
    using b d(3) by simp
  have 4: "computeResult (Finite 42) ''DIVIDE'' (Finite 7) = Inr (Finite 6)"
    using c d(4) by simp
  have 5: "computeResult (Finite 1) ''DIVIDE'' (Finite 10)
       = Inr (Finite (3602879701896397 / 2 ^ 55))"
    using e roundDouble_tenth by simp
  have 6: "computeResult (Finite 5) ''DIVIDE'' (Finite 0)
       = Inl (Error ''Division by zero is not allowed'')"
    using a by simp
  have 7: "computeResult (Finite 5) ''POWER'' (Finite 2)
       = Inl (Error ''Invalid operation type: POWER'')"
    using a by (simp add: validOperations_def)
  show ?thesis
    by (intro conjI d 1 2 3 4 5 6 7 roundDouble_tenth z conjunct1 [OF 8] conjunct2 [OF 8])
qed

text \<open>
  The claim as the spec states it fails: \<open>2 ^ 53\<close> and \<open>1\<close> are doubles and their
  sum is not, so ``ADD'' gives \<open>2 ^ 53\<close>; and the product of \<open>2 ^ 1023\<close> and \<open>2\<close>
  overflows.
\<close>

theorem computeResult_rounding_counterexample:
  "isDouble (2 ^ 53) \<and> isDouble 1 \<and> isDouble (2 ^ 1023) \<and> isDouble 2
   \<and> computeResult (Finite (2 ^ 53)) ''ADD'' (Finite 1) = Inr (Finite (2 ^ 53))
   \<and> computeResult (Finite (2 ^ 53)) ''ADD'' (Finite 1) \<noteq> Inr (Finite (2 ^ 53 + 1))
   \<and> computeResult (Finite (2 ^ 1023)) ''MULTIPLY'' (Finite 2) = Inr (Infinity True)
   \<and> computeResult (Finite (2 ^ 1023)) ''MULTIPLY'' (Finite 2)
       \<noteq> Inr (Finite (2 ^ 1023 * 2))"
proof -
  have big: "isDouble (2 ^ 1023)"
  proof -
    have e: "ulpExponent \<bar>2 ^ 1023\<bar> = 971"
      by (rule ulpExponent_eq) simp_all
    have "\<bar>2 ^ 1023\<bar> / 2 powi 971 = (of_int (2 ^ 52) :: real)" by simp
    then have "of_int \<lfloor>\<bar>2 ^ 1023\<bar> / 2 powi 971 :: real\<rfloor> = (\<bar>2 ^ 1023\<bar> / 2 powi 971 :: real)"
      by (simp only: floor_of_int)
    then show ?thesis
      unfolding isDouble_def Let_def e by simp
  qed
  have d: "isDouble (2 ^ 53)" "isDouble 1" "isDouble 2"
    using isDouble_int [of "2 ^ 53"] isDouble_int [of 1] isDouble_int [of 2] by simp_all
  have a: "computeResult (Finite (2 ^ 53)) ''ADD'' (Finite 1) = Inr (Finite (2 ^ 53))"
    unfolding computeResult_def using roundDouble_tie by simp
  have m: "computeResult (Finite (2 ^ 1023)) ''MULTIPLY'' (Finite 2) = Inr (Infinity True)"
    unfolding computeResult_def using roundDouble_overflow by simp
  show ?thesis
    using d big a m by simp
qed

section \<open>Stores and controllers: auxiliary facts\<close>

lemma find_SomeD: "find P xs = Some x \<Longrightarrow> x \<in> set xs \<and> P x"
  by (induction xs) (auto split: if_splits)

lemma find_distinct_key:
  "distinct (map f xs) \<Longrightarrow> x \<in> set xs \<Longrightarrow> find (\<lambda>y. f y = f x) xs = Some x"
  by (induction xs) auto

lemma newId_inj [simp]: "(newId m = newId n) = (m = n)"
  by (simp add: newId_def)

lemma newId_nonempty [simp]: "newId n \<noteq> []"
  by (simp add: newId_def)

lemma findUniqueDiscussion_SomeD:
  "findUniqueDiscussion s i = Some d \<Longrightarrow> d \<in> set (discussions s) \<and> d_id d = i"
  using find_SomeD [of "\<lambda>d. d_id d = i" "discussions s" d]
  by (simp add: findUniqueDiscussion_def)

lemma findUniqueOperation_SomeD:
  "findUniqueOperation s i = Some x \<Longrightarrow> x \<in> set (operations s) \<and> o_id x = i"
  using find_SomeD [of "\<lambda>x. o_id x = i" "operations s" x]
  by (simp add: findUniqueOperation_def)

text \<open>
  What each writing controller does to the store: nothing, or one row more (one row
  changed, for the update).
\<close>

lemma DiscussionController_create_store:
  "snd (DiscussionController_create s now sn u) = s \<or>
   (\<exists>v. DiscussionModel_findByStartingNumber s v = None \<and>
        snd (DiscussionController_create s now sn u) =
          s\<lparr>discussions := \<lparr>d_id = newId (nextId s), d_startingNumber = v,
                              d_authorId = u, d_createdAt = now\<rparr> # discussions s,
            nextId := Suc (nextId s)\<rparr>)"
  by (auto simp: DiscussionController_create_def DiscussionRepository_create_def Let_def
           split: option.splits)

lemma DiscussionController_update_store:
  "snd (DiscussionController_update s i sn u) = s \<or>
   (\<exists>d v. findUniqueDiscussion s i = Some d \<and>
        find (\<lambda>e. d_id e \<noteq> i \<and> d_startingNumber e = v) (discussions s) = None \<and>
        snd (DiscussionController_update s i sn u) =
          s\<lparr>discussions := map (\<lambda>e. if d_id e = i then d\<lparr>d_startingNumber := v\<rparr> else e)
                               (discussions s)\<rparr>)"
  by (auto simp: DiscussionController_update_def DiscussionRepository_update_def
                 DiscussionRepository_findById_def Let_def
           split: option.splits)

lemma OperationController_create_required:
  assumes "\<not> truthy (discussionId b) \<or> \<not> truthy (operationType b)
           \<or> operand b = JUndefined \<or> operand b = JNull"
  shows "OperationController_create s now b u =
           (Response 400 (ErrorBody ''discussionId, operationType, and operand are required''), s)"
  using assms by (simp add: OperationController_create_def)

lemma OperationController_create_type:
  assumes "operationType b \<notin> JString ` set validOperations"
  shows "status (fst (OperationController_create s now b u)) = 400 \<and>
         snd (OperationController_create s now b u) = s"
  using assms
  by (cases "operationType b") (auto simp: OperationController_create_def)

lemma OperationController_create_not_string:
  assumes "\<forall>d. discussionId b \<noteq> JString d"
  shows "snd (OperationController_create s now b userId) = s
         \<and> status (fst (OperationController_create s now b userId)) \<in> {400, 500}"
  using assms
  by (cases "discussionId b")
     (auto simp: OperationController_create_def DiscussionRepository_findById_def
           split: option.splits jsval.splits)

lemma OperationController_create_valid:
  assumes "discussionId b = JString d" "d \<noteq> []" "operationType b = JString t"
    "t \<in> set validOperations" "operand b \<noteq> JUndefined" "operand b \<noteq> JNull"
  shows "OperationController_create s now b u =
     (case findUniqueDiscussion s d of
        None \<Rightarrow> (Response 404 (ErrorBody ''Discussion not found''), s)
      | Some discussion \<Rightarrow>
         (case (if truthy (parentId b) then
                      (case OperationRepository_findById s (parentId b) of
                         Inl e \<Rightarrow> Inl (Response 500 (ThrownBody e))
                       | Inr None \<Rightarrow> Inl (Response 404 (ErrorBody ''Parent operation not found''))
                       | Inr (Some parentOperation) \<Rightarrow>
                           if JString (o_discussionId parentOperation) \<noteq> discussionId b
                           then Inl (Response 400 (ErrorBody
                                  ''Parent operation does not belong to this discussion''))
                           else Inr (o_result parentOperation))
                    else Inr (d_startingNumber discussion)) of
                   Inl r \<Rightarrow> (r, s)
                 | Inr previousValue \<Rightarrow>
                     (case computeResult previousValue t (parseFloat (operand b)) of
                        Inl e \<Rightarrow> (Response 500 (ThrownBody e), s)
                      | Inr result \<Rightarrow>
                          (case OperationRepository_create s now (discussionId b)
                                  (if truthy (parentId b) then parentId b else JNull)
                                  t (parseFloat (operand b)) result u of
                             Inl e \<Rightarrow> (Response 500 (ThrownBody e), s)
                           | Inr (operation, s') \<Rightarrow>
                               (Response 201 (OperationBody operation), s')))))"
proof -
  have "t \<noteq> []" using assms(4) by (auto simp: validOperations_def)
  then show ?thesis
    using assms(1-4)
    by (simp add: OperationController_create_def DiscussionRepository_findById_def Let_def
                  assms(5,6) split: option.splits)
qed

lemma OperationController_create_store:
  assumes "snd (OperationController_create s now b u) \<noteq> s"
  shows "\<exists>d disc t par pv r.
      discussionId b = JString d \<and> findUniqueDiscussion s d = Some disc \<and>
      (par = None \<and> pv = d_startingNumber disc
       \<or> (\<exists>p q. par = Some p \<and> findUniqueOperation s p = Some q
               \<and> o_discussionId q = d \<and> pv = o_result q)) \<and>
      computeResult pv t (parseFloat (operand b)) = Inr r \<and>
      snd (OperationController_create s now b u) =
        s\<lparr>operations :=
            \<lparr>o_id = newId (nextId s), o_discussionId = d, o_parentId = par,
             o_operationType = t, o_operand = parseFloat (operand b), o_result = r,
             o_authorId = u, o_createdAt = now\<rparr> # operations s,
          nextId := Suc (nextId s)\<rparr>"
proof -
  have req: "truthy (discussionId b)" "operand b \<noteq> JUndefined" "operand b \<noteq> JNull"
    using assms by (metis OperationController_create_required snd_conv)+
  obtain t where t: "operationType b = JString t" "t \<in> set validOperations"
    using assms OperationController_create_type [of b s now u] by auto
  obtain d where d: "discussionId b = JString d" "d \<noteq> []"
    using assms req(1)
    by (cases "discussionId b")
       (auto simp: OperationController_create_def DiscussionRepository_findById_def
             split: option.splits)
  note form = OperationController_create_valid [OF d t req(2,3), of s now u]
  obtain disc where disc: "findUniqueDiscussion s d = Some disc"
    using assms form by (cases "findUniqueDiscussion s d") auto
  show ?thesis
  proof (cases "truthy (parentId b)")
    case False
    obtain r where r: "computeResult (d_startingNumber disc) t (parseFloat (operand b)) = Inr r"
      using assms disc form False
      by (cases "computeResult (d_startingNumber disc) t (parseFloat (operand b))") auto
    have "snd (OperationController_create s now b u) =
        s\<lparr>operations :=
            \<lparr>o_id = newId (nextId s), o_discussionId = d, o_parentId = None,
             o_operationType = t, o_operand = parseFloat (operand b), o_result = r,
             o_authorId = u, o_createdAt = now\<rparr> # operations s,
          nextId := Suc (nextId s)\<rparr>"
      using d disc False r form by (simp add: OperationRepository_create_def Let_def)
    then show ?thesis using d disc r by blast
  next
    case True
    then obtain p where p: "parentId b = JString p"
      using assms disc form
      by (cases "parentId b") (auto simp: OperationRepository_findById_def)
    obtain q where q: "findUniqueOperation s p = Some q" "o_discussionId q = d"
      using assms disc True p form d
      by (cases "findUniqueOperation s p")
         (auto simp: OperationRepository_findById_def split: if_splits)
    obtain r where r: "computeResult (o_result q) t (parseFloat (operand b)) = Inr r"
      using assms disc form True p q d
      by (cases "computeResult (o_result q) t (parseFloat (operand b))")
         (auto simp: OperationRepository_findById_def)
    have "snd (OperationController_create s now b u) =
        s\<lparr>operations :=
            \<lparr>o_id = newId (nextId s), o_discussionId = d, o_parentId = Some p,
             o_operationType = t, o_operand = parseFloat (operand b), o_result = r,
             o_authorId = u, o_createdAt = now\<rparr> # operations s,
          nextId := Suc (nextId s)\<rparr>"
      using d disc True p q r form
      by (simp add: OperationRepository_findById_def OperationRepository_create_def Let_def)
    then show ?thesis using d disc r q by blast
  qed
qed

text \<open>
  Every reachable store is well formed.
\<close>

lemma update_keeps_ids:
  "map d_id (map (\<lambda>e. if d_id e = i then d\<lparr>d_startingNumber := v\<rparr> else e) xs) =
   map (\<lambda>e. if d_id e = i then d_id d else d_id e) xs"
  by (induction xs) auto

lemma update_keeps_distinct:
  assumes "distinct (map d_id xs)" "distinct (map d_startingNumber xs)"
    "\<forall>e \<in> set xs. d_id e \<noteq> i \<longrightarrow> d_startingNumber e \<noteq> v"
  shows "distinct (map d_startingNumber
           (map (\<lambda>e. if d_id e = i then d\<lparr>d_startingNumber := v\<rparr> else e) xs))"
  using assms
proof (induction xs)
  case Nil
  then show ?case by simp
next
  case (Cons a xs)
  then show ?case by (auto simp: image_iff) 
qed

lemma storeOk_discussion:
  assumes "storeOk s"
  shows "storeOk (snd (DiscussionController_create s now sn u))"
proof -
  from DiscussionController_create_store [of s now sn u]
  show ?thesis
  proof
    assume "snd (DiscussionController_create s now sn u) = s"
    then show ?thesis using assms by simp
  next
    assume "\<exists>v. DiscussionModel_findByStartingNumber s v = None \<and>
        snd (DiscussionController_create s now sn u) =
          s\<lparr>discussions := \<lparr>d_id = newId (nextId s), d_startingNumber = v,
                              d_authorId = u, d_createdAt = now\<rparr> # discussions s,
            nextId := Suc (nextId s)\<rparr>"
    then obtain v where v: "DiscussionModel_findByStartingNumber s v = None"
      and eq: "snd (DiscussionController_create s now sn u) =
          s\<lparr>discussions := \<lparr>d_id = newId (nextId s), d_startingNumber = v,
                              d_authorId = u, d_createdAt = now\<rparr> # discussions s,
            nextId := Suc (nextId s)\<rparr>" by blast
    have fresh: "v \<notin> d_startingNumber ` set (discussions s)"
      using v by (auto simp: DiscussionModel_findByStartingNumber_def find_None_iff)
    have newid: "newId (nextId s) \<notin> d_id ` set (discussions s)"
      using assms by (auto simp: storeOk_def)
    show ?thesis
      unfolding eq using assms fresh newid
      by (auto simp: storeOk_def less_Suc_eq)
  qed
qed

lemma storeOk_update:
  assumes "storeOk s"
  shows "storeOk (snd (DiscussionController_update s i sn u))"
proof -
  from DiscussionController_update_store [of s i sn u]
  show ?thesis
  proof
    assume "snd (DiscussionController_update s i sn u) = s"
    then show ?thesis using assms by simp
  next
    assume "\<exists>d v. findUniqueDiscussion s i = Some d \<and>
        find (\<lambda>e. d_id e \<noteq> i \<and> d_startingNumber e = v) (discussions s) = None \<and>
        snd (DiscussionController_update s i sn u) =
          s\<lparr>discussions := map (\<lambda>e. if d_id e = i then d\<lparr>d_startingNumber := v\<rparr> else e)
                               (discussions s)\<rparr>"
    then obtain d v where d: "findUniqueDiscussion s i = Some d"
      and v: "find (\<lambda>e. d_id e \<noteq> i \<and> d_startingNumber e = v) (discussions s) = None"
      and eq: "snd (DiscussionController_update s i sn u) =
          s\<lparr>discussions := map (\<lambda>e. if d_id e = i then d\<lparr>d_startingNumber := v\<rparr> else e)
                               (discussions s)\<rparr>" by blast
    have di: "d_id d = i" "d \<in> set (discussions s)"
      using d find_SomeD [of "\<lambda>d. d_id d = i" "discussions s" d]
      by (auto simp: findUniqueDiscussion_def)
    have ids: "map d_id (map (\<lambda>e. if d_id e = i then d\<lparr>d_startingNumber := v\<rparr> else e)
                 (discussions s)) = map d_id (discussions s)"
      using di by (simp add: update_keeps_ids cong: map_cong)
    have other: "\<forall>e \<in> set (discussions s). d_id e \<noteq> i \<longrightarrow> d_startingNumber e \<noteq> v"
      using v by (auto simp: find_None_iff)
    have dist: "distinct (map d_startingNumber
           (map (\<lambda>e. if d_id e = i then d\<lparr>d_startingNumber := v\<rparr> else e) (discussions s)))"
      using assms other by (intro update_keeps_distinct) (auto simp: storeOk_def)
    have set_ids: "d_id ` set (map (\<lambda>e. if d_id e = i then d\<lparr>d_startingNumber := v\<rparr> else e)
                 (discussions s)) = d_id ` set (discussions s)"
      using ids by (metis list.set_map)
    have "discussions (snd (DiscussionController_update s i sn u)) =
            map (\<lambda>e. if d_id e = i then d\<lparr>d_startingNumber := v\<rparr> else e) (discussions s)"
      unfolding eq by simp
    then have "map d_id (discussions (snd (DiscussionController_update s i sn u))) =
            map d_id (discussions s)"
      using ids by (simp only:)
    then have a: "distinct (map d_id (discussions (snd (DiscussionController_update s i sn u))))"
      using assms by (simp add: storeOk_def)
    have b: "o_discussionId ` set (operations s)
               \<subseteq> d_id ` set (discussions (snd (DiscussionController_update s i sn u)))"
      unfolding eq using set_ids assms by (simp add: storeOk_def)
    have c: "\<forall>e \<in> set (discussions (snd (DiscussionController_update s i sn u))). \<exists>k < nextId s. d_id e = newId k"
    proof
      fix e assume "e \<in> set (discussions (snd (DiscussionController_update s i sn u)))"
      then have "d_id e \<in> d_id ` set (discussions s)"
        unfolding eq using set_ids by auto
      then show "\<exists>k < nextId s. d_id e = newId k"
        using assms by (auto simp: storeOk_def)
    qed
    show ?thesis
      using assms a b c dist unfolding storeOk_def eq by simp
  qed
qed

lemma storeOk_operation:
  assumes "storeOk s"
  shows "storeOk (snd (OperationController_create s now b u))"
proof (cases "snd (OperationController_create s now b u) = s")
  case True
  then show ?thesis using assms by simp
next
  case False
  from OperationController_create_store [OF False]
  obtain d disc t par pv r where disc: "findUniqueDiscussion s d = Some disc"
    and par: "par = None \<or> (\<exists>p q. par = Some p \<and> findUniqueOperation s p = Some q
               \<and> o_discussionId q = d)"
    and eq: "snd (OperationController_create s now b u) =
        s\<lparr>operations :=
            \<lparr>o_id = newId (nextId s), o_discussionId = d, o_parentId = par,
             o_operationType = t, o_operand = parseFloat (operand b), o_result = r,
             o_authorId = u, o_createdAt = now\<rparr> # operations s,
          nextId := Suc (nextId s)\<rparr>" by blast
  have di: "d_id disc = d" "disc \<in> set (discussions s)"
    using disc find_SomeD [of "\<lambda>e. d_id e = d" "discussions s" disc]
    by (auto simp: findUniqueDiscussion_def)
  have newid: "newId (nextId s) \<notin> o_id ` set (operations s)"
    using assms by (auto simp: storeOk_def)
  have parent: "case par of None \<Rightarrow> True
     | Some p \<Rightarrow> \<exists>q \<in> set (operations s). o_id q = p \<and> o_discussionId q = d"
    using par find_SomeD [of "\<lambda>x. o_id x = the par" "operations s"]
    by (auto simp: findUniqueOperation_def)
  show ?thesis
    unfolding eq using assms di newid parent
    by (auto simp: storeOk_def less_Suc_eq split: option.splits)
qed

lemma storeOk_empty: "storeOk emptyStore"
  by (simp add: storeOk_def emptyStore_def)

lemma reachable_storeOk: "reachable s \<Longrightarrow> storeOk s"
  by (induction rule: reachable.induct)
     (simp_all add: storeOk_empty storeOk_discussion storeOk_update storeOk_operation)

lemma settled_reachable: "settled s i \<Longrightarrow> reachable s"
  by (induction rule: settled.induct) (auto intro: reachable.intros)

lemma find_after_update:
  assumes "d_id d = j" "j \<noteq> i"
  shows "find (\<lambda>e. d_id e = i) (map (\<lambda>e. if d_id e = j then d\<lparr>d_startingNumber := v\<rparr> else e) xs)
           = find (\<lambda>e. d_id e = i) xs"
  using assms by (induction xs) auto

lemma findUniqueDiscussion_update_other:
  assumes "j \<noteq> i"
  shows "findUniqueDiscussion (snd (DiscussionController_update s j sn u)) i
          = findUniqueDiscussion s i"
  using DiscussionController_update_store [of s j sn u]
proof
  assume "snd (DiscussionController_update s j sn u) = s"
  then show ?thesis by simp
next
  assume "\<exists>d v. findUniqueDiscussion s j = Some d \<and>
      find (\<lambda>e. d_id e \<noteq> j \<and> d_startingNumber e = v) (discussions s) = None \<and>
      snd (DiscussionController_update s j sn u) =
        s\<lparr>discussions := map (\<lambda>e. if d_id e = j then d\<lparr>d_startingNumber := v\<rparr> else e)
                             (discussions s)\<rparr>"
  then obtain d v where d: "findUniqueDiscussion s j = Some d"
    and eq: "snd (DiscussionController_update s j sn u) =
        s\<lparr>discussions := map (\<lambda>e. if d_id e = j then d\<lparr>d_startingNumber := v\<rparr> else e)
                             (discussions s)\<rparr>" by blast
  have "d_id d = j" using findUniqueDiscussion_SomeD [OF d] by simp
  then show ?thesis
    unfolding eq using find_after_update [OF _ assms]
    by (simp add: findUniqueDiscussion_def)
qed

lemma settled_update_other:
  assumes "settled s i" "j \<noteq> i"
  shows "settled (snd (DiscussionController_update s j sn u)) i"
  using assms(1) by (rule settled_update) (simp add: findUniqueDiscussion_update_other [OF assms(2)])

lemma settled_update_before:
  assumes "settled s i" "i \<notin> o_discussionId ` set (operations s)"
  shows "settled (snd (DiscussionController_update s j sn u)) i"
  using assms(1) by (rule settled_update) (simp add: assms(2))

lemma settled_update_refused:
  assumes "settled s i" "snd (DiscussionController_update s j sn u) = s"
  shows "settled (snd (DiscussionController_update s j sn u)) i"
  using assms(1) by (rule settled_update) (simp add: assms(2))

section \<open>The worked scenario, evaluated\<close>

lemmas eval_defs =
  DiscussionController_create_def DiscussionController_update_def
  OperationController_create_def DiscussionRepository_create_def
  DiscussionRepository_update_def DiscussionRepository_findById_def
  DiscussionModel_findByStartingNumber_def OperationRepository_create_def
  OperationRepository_findById_def findUniqueDiscussion_def findUniqueOperation_def
  computeResult_def validOperations_def strict_eq_def js_sub_def newId_def emptyStore_def
  Let_def eval_nat_numeral

lemmas parse_defs =
  parseFloatString_def unsignedLiteral_def isWhiteSpace_def isDigit_def digitsValue_def
  digitValue_def exponentOf_def scale10_def

lemma parseFloat_one: "parseFloatString ''1'' = Finite 1"
  by (simp add: parse_defs)

lemma parseFloat_42: "parseFloatString ''42'' = Finite 42"
  by (simp add: parse_defs)

lemma parseFloat_12abc: "parseFloatString ''12abc'' = Finite 12"
  by (simp add: parse_defs)

lemma parseFloat_10_apples: "parseFloatString ''10 apples'' = Finite 10"
  by (simp add: parse_defs)

lemma scenario1_eq:
  "scenario1 = \<lparr>discussions = [theDiscussion], operations = [], nextId = 1\<rparr>"
  by (simp add: scenario1_def theDiscussion_def eval_defs)

lemma scenario2_eq:
  "scenario2 = \<lparr>discussions = [theDiscussion], operations = [firstOperation], nextId = 2\<rparr>"
  by (simp add: scenario2_def scenario1_eq addTen_def theDiscussion_def firstOperation_def
        eval_defs)

lemma scenario3_eq:
  "scenario3 = \<lparr>discussions = [theDiscussion],
                 operations = [secondOperation, firstOperation], nextId = 3\<rparr>"
  by (simp add: scenario3_def scenario2_eq timesTwo_def theDiscussion_def firstOperation_def
        secondOperation_def eval_defs)

lemma scenarioUpdated_eq:
  "scenarioUpdated = \<lparr>discussions = [theDiscussion\<lparr>d_startingNumber := Finite 100\<rparr>],
                 operations = [secondOperation, firstOperation], nextId = 3\<rparr>"
  by (simp add: scenarioUpdated_def scenario3_eq theDiscussion_def eval_defs)

lemma scenarioTwo_eq:
  "scenarioTwo = \<lparr>discussions = [otherDiscussion, theDiscussion],
                   operations = [secondOperation, firstOperation], nextId = 4\<rparr>"
  by (simp add: scenarioTwo_def scenario3_eq theDiscussion_def otherDiscussion_def eval_defs)

lemma scenarioTie_eq:
  "scenarioTie = \<lparr>discussions = [theDiscussion],
                   operations = [tieOperation, firstOperation], nextId = 3\<rparr>"
  by (simp add: scenarioTie_def scenario2_eq addOne_def theDiscussion_def firstOperation_def
        tieOperation_def eval_defs parseFloat_one)

lemma parseFloat_xyz: "parseFloatString ''xyz'' = NaN"
  by (simp add: parse_defs)

lemma parseFloat_rounds: "parseFloat (JString ''9007199254740993'') = Finite (2 ^ 53)"
proof -
  have "parseFloatString ''9007199254740993'' = roundDouble 9007199254740993"
    by (simp add: parse_defs)
  moreover have "(9007199254740993::real) = 2 ^ 53 + 1" by simp
  ultimately have "parseFloatString ''9007199254740993'' = roundDouble (2 ^ 53 + 1)"
    by (simp only:)
  then show ?thesis by (simp only: parseFloat.simps roundDouble_tie)
qed

lemma scenarioOtherUpdated_eq:
  "scenarioOtherUpdated =
     \<lparr>discussions = [otherDiscussion\<lparr>d_startingNumber := Finite 8\<rparr>, theDiscussion],
      operations = [secondOperation, firstOperation], nextId = 4\<rparr>"
  by (simp add: scenarioOtherUpdated_def scenarioTwo_eq theDiscussion_def otherDiscussion_def
        eval_defs)

lemma scenarioNaN_eq:
  "scenarioNaN = \<lparr>discussions = [nanDiscussion], operations = [], nextId = 1\<rparr>"
  by (simp add: scenarioNaN_def nanDiscussion_def eval_defs parseFloat_xyz)

lemma settled_scenario3: "settled scenario3 ''c''"
  unfolding scenario3_def scenario2_def scenario1_def
  by (intro settled_empty settled_discussion settled_operation)

lemma reachable_scenario3: "reachable scenario3"
  using settled_scenario3 by (rule settled_reachable)

lemma reachable_scenarioUpdated: "reachable scenarioUpdated"
  unfolding scenarioUpdated_def
  by (intro reachable.intros reachable_scenario3)

lemma settled_scenarioTwo: "settled scenarioTwo ''c''"
  unfolding scenarioTwo_def
  by (intro settled_discussion settled_scenario3)

lemma reachable_scenarioTwo: "reachable scenarioTwo"
  using settled_scenarioTwo by (rule settled_reachable)

lemma settled_scenarioOtherUpdated: "settled scenarioOtherUpdated ''c''"
  unfolding scenarioOtherUpdated_def
  by (rule settled_update_other [OF settled_scenarioTwo]) simp

lemma reachable_scenarioOtherUpdated: "reachable scenarioOtherUpdated"
  using settled_scenarioOtherUpdated by (rule settled_reachable)

lemma reachable_scenarioTie: "reachable scenarioTie"
  unfolding scenarioTie_def scenario2_def scenario1_def
  by (intro reachable.intros)

lemma reachable_scenarioNaN: "reachable scenarioNaN"
  unfolding scenarioNaN_def
  by (intro reachable.intros)

lemma find_scenarioTwo:
  "findUniqueDiscussion scenarioTwo ''c'' = Some theDiscussion"
  "findUniqueDiscussion scenarioTwo ''c000'' = Some otherDiscussion"
  "findUniqueDiscussion scenarioTwo ''zzz'' = None"
  "findUniqueOperation scenarioTwo ''c0'' = Some firstOperation"
  "findUniqueOperation scenarioTwo ''zzz'' = None"
  by (simp_all add: scenarioTwo_eq findUniqueDiscussion_def findUniqueOperation_def
        theDiscussion_def otherDiscussion_def firstOperation_def secondOperation_def)

lemma mem_scenarioTwo:
  "theDiscussion \<in> set (discussions scenarioTwo)"
  "otherDiscussion \<in> set (discussions scenarioTwo)"
  by (simp_all add: scenarioTwo_eq)

section \<open>Creating a discussion\<close>

text \<open>
  Claim C3. In a reachable store the starting numbers are pairwise distinct, and a
  request to create a discussion whose starting number (as \<^verbatim>\<open>parseFloat\<close> reads
  it) is that of a stored discussion is answered with status 409 and a body that names
  that discussion's identity and starting number; the store is unchanged.
\<close>

theorem createDiscussion_conflict:
  assumes "reachable s" "startingNumber \<noteq> JUndefined" "startingNumber \<noteq> JNull"
    "e \<in> set (discussions s)" "d_startingNumber e = parseFloat startingNumber"
  shows "DiscussionController_create s now startingNumber userId =
           (Response 409 (ConflictBody ''This starting number is already taken''
              (d_id e) (d_startingNumber e)), s)
         \<and> distinct (map d_startingNumber (discussions s))"
proof -
  have dist: "distinct (map d_startingNumber (discussions s))"
    using reachable_storeOk [OF assms(1)] by (simp add: storeOk_def)
  have "DiscussionModel_findByStartingNumber s (parseFloat startingNumber) = Some e"
    unfolding DiscussionModel_findByStartingNumber_def
    using find_distinct_key [OF dist assms(4)] assms(5) by simp
  then show ?thesis
    using assms(2,3) dist by (simp add: DiscussionController_create_def)
qed

theorem createDiscussion_conflict_witness:
  "reachable scenarioTwo
   \<and> theDiscussion \<in> set (discussions scenarioTwo)
   \<and> DiscussionController_create scenarioTwo 9 (JString ''42'') ''bob'' =
       (Response 409 (ConflictBody ''This starting number is already taken'' ''c'' (Finite 42)),
        scenarioTwo)
   \<and> distinct (map d_startingNumber (discussions scenarioTwo))"
proof -
  have m: "theDiscussion \<in> set (discussions scenarioTwo)"
    by (simp add: scenarioTwo_eq)
  have v: "d_startingNumber theDiscussion = parseFloat (JString ''42'')"
    by (simp add: parseFloat_42 theDiscussion_def)
  from createDiscussion_conflict [OF reachable_scenarioTwo _ _ m v, of 9 "''bob''"]
  show ?thesis using reachable_scenarioTwo m by (simp add: theDiscussion_def)
qed

section \<open>Updating a starting number\<close>

text \<open>
  What the update answers to a request with an identity and a starting number: status
  404 when the identity names no discussion; otherwise 403 when the requestor is not the
  author, whatever the new value; otherwise, in a reachable store, 409 naming the other
  discussion when the new value is another discussion's; and when the new value is
  \<^verbatim>\<open>===\<close> the current one the lookup by starting number is skipped and the answer
  is 200 with the discussion, the store unchanged.
\<close>

lemma updateDiscussion_responses:
  assumes "i \<noteq> []" "startingNumber \<noteq> JUndefined" "startingNumber \<noteq> JNull"
  shows
    "(findUniqueDiscussion s i = None \<longrightarrow>
        DiscussionController_update s i startingNumber userId =
          (Response 404 (ErrorBody ''Discussion not found''), s))
     \<and> (findUniqueDiscussion s i = Some d \<and> d_authorId d \<noteq> userId \<longrightarrow>
        DiscussionController_update s i startingNumber userId =
          (Response 403 (ErrorBody ''Not authorized to update this discussion''), s))
     \<and> (reachable s \<and> findUniqueDiscussion s i = Some d \<and> d_authorId d = userId
         \<and> e \<in> set (discussions s) \<and> d_id e \<noteq> i
         \<and> d_startingNumber e = parseFloat startingNumber \<longrightarrow>
        DiscussionController_update s i startingNumber userId =
          (Response 409 (ConflictBody
             ''This starting number is already taken by another discussion''
             (d_id e) (d_startingNumber e)), s))
     \<and> (reachable s \<and> findUniqueDiscussion s i = Some d \<and> d_authorId d = userId
         \<and> strict_eq (parseFloat startingNumber) (d_startingNumber d) \<longrightarrow>
        DiscussionController_update s i startingNumber userId =
          (Response 200 (DiscussionBody d), s))"
proof (intro conjI impI)
  assume "findUniqueDiscussion s i = None"
  then show "DiscussionController_update s i startingNumber userId =
          (Response 404 (ErrorBody ''Discussion not found''), s)"
    using assms by (simp add: DiscussionController_update_def DiscussionRepository_findById_def)
next
  assume "findUniqueDiscussion s i = Some d \<and> d_authorId d \<noteq> userId"
  then show "DiscussionController_update s i startingNumber userId =
          (Response 403 (ErrorBody ''Not authorized to update this discussion''), s)"
    using assms by (simp add: DiscussionController_update_def DiscussionRepository_findById_def)
next
  assume a: "reachable s \<and> findUniqueDiscussion s i = Some d \<and> d_authorId d = userId
         \<and> e \<in> set (discussions s) \<and> d_id e \<noteq> i
         \<and> d_startingNumber e = parseFloat startingNumber"
  then have ok: "storeOk s" using reachable_storeOk by blast
  then have dist: "distinct (map d_startingNumber (discussions s))"
    by (simp add: storeOk_def)
  have d: "d \<in> set (discussions s)" "d_id d = i"
    using a findUniqueDiscussion_SomeD by blast+
  have found: "DiscussionModel_findByStartingNumber s (parseFloat startingNumber) = Some e"
    unfolding DiscussionModel_findByStartingNumber_def
    using find_distinct_key [OF dist, of e] a by simp
  have "d \<noteq> e" using a d by auto
  then have "d_startingNumber d \<noteq> d_startingNumber e"
    using dist d(1) a by (metis distinct_map inj_onD)
  then have "\<not> strict_eq (parseFloat startingNumber) (d_startingNumber d)"
    using a by (auto simp: strict_eq_def)
  then show "DiscussionController_update s i startingNumber userId =
          (Response 409 (ConflictBody
             ''This starting number is already taken by another discussion''
             (d_id e) (d_startingNumber e)), s)"
    using assms a found
    by (simp add: DiscussionController_update_def DiscussionRepository_findById_def)
next
  assume a: "reachable s \<and> findUniqueDiscussion s i = Some d \<and> d_authorId d = userId
         \<and> strict_eq (parseFloat startingNumber) (d_startingNumber d)"
  then have ok: "storeOk s" using reachable_storeOk by blast
  then have dist: "distinct (map d_startingNumber (discussions s))"
    and dist_id: "distinct (map d_id (discussions s))"
    by (simp_all add: storeOk_def)
  have d: "d \<in> set (discussions s)" "d_id d = i"
    using a findUniqueDiscussion_SomeD by blast+
  have same: "parseFloat startingNumber = d_startingNumber d"
    using a by (simp add: strict_eq_def)
  have none: "find (\<lambda>e. d_id e \<noteq> i \<and> d_startingNumber e = d_startingNumber d)
                (discussions s) = None"
  proof -
    have "\<And>e. e \<in> set (discussions s) \<Longrightarrow> d_startingNumber e = d_startingNumber d \<Longrightarrow> e = d"
      using dist d(1) by (metis distinct_map inj_onD)
    then show ?thesis using d(2) by (auto simp: find_None_iff)
  qed
  have unchanged: "map (\<lambda>e. if d_id e = i then d else e) (discussions s) = discussions s"
  proof -
    have "\<And>e. e \<in> set (discussions s) \<Longrightarrow> d_id e = i \<Longrightarrow> e = d"
      using dist_id d by (metis distinct_map inj_onD)
    then show ?thesis by (intro map_idI) auto
  qed
  have "DiscussionRepository_update s i (d_startingNumber d) = Inr (d, s)"
    using a none unchanged by (simp add: DiscussionRepository_update_def)
  then show "DiscussionController_update s i startingNumber userId =
          (Response 200 (DiscussionBody d), s)"
    using assms a same
    by (simp add: DiscussionController_update_def DiscussionRepository_findById_def)
qed

text \<open>
  Claim C5. The last part of the claim fails where the code compares the new value
  with the current one: NaN is not \<^verbatim>\<open>===\<close> NaN. A discussion created with the
  starting number \<^verbatim>\<open>xyz\<close> holds NaN; when its author updates it to \<^verbatim>\<open>xyz\<close> the
  lookup by starting number runs, finds the discussion itself, and the answer is 409
  ``already taken by another discussion'', naming that same discussion.
\<close>

theorem updateDiscussion_nan_self_conflict:
  "reachable scenarioNaN
   \<and> findUniqueDiscussion scenarioNaN ''c'' = Some nanDiscussion
   \<and> d_authorId nanDiscussion = ''alice''
   \<and> parseFloat (JString ''xyz'') = d_startingNumber nanDiscussion
   \<and> DiscussionController_update scenarioNaN ''c'' (JString ''xyz'') ''alice'' =
       (Response 409 (ConflictBody
          ''This starting number is already taken by another discussion'' ''c'' NaN),
        scenarioNaN)"
  using reachable_scenarioNaN
  by (simp add: scenarioNaN_eq nanDiscussion_def parseFloat_xyz DiscussionController_update_def
        DiscussionRepository_findById_def findUniqueDiscussion_def
        DiscussionModel_findByStartingNumber_def strict_eq_def)

section \<open>Creating an operation\<close>

lemma createOperation_errors_valid:
  assumes "discussionId b = JString d" "d \<noteq> []" "operationType b = JString t"
    "t \<in> set validOperations" "operand b \<noteq> JUndefined" "operand b \<noteq> JNull"
  shows
    "(findUniqueDiscussion s d = None \<longrightarrow>
        OperationController_create s now b userId =
          (Response 404 (ErrorBody ''Discussion not found''), s))
     \<and> (findUniqueDiscussion s d = Some disc \<and> parentId b = JString p \<and> p \<noteq> []
         \<and> findUniqueOperation s p = None \<longrightarrow>
        OperationController_create s now b userId =
          (Response 404 (ErrorBody ''Parent operation not found''), s))
     \<and> (findUniqueDiscussion s d = Some disc \<and> parentId b = JString p \<and> p \<noteq> []
         \<and> findUniqueOperation s p = Some q \<and> o_discussionId q \<noteq> d \<longrightarrow>
        OperationController_create s now b userId =
          (Response 400 (ErrorBody ''Parent operation does not belong to this discussion''), s))
     \<and> (findUniqueDiscussion s d = Some disc
         \<and> (\<not> truthy (parentId b) \<and> pv = d_startingNumber disc
            \<or> parentId b = JString p \<and> p \<noteq> [] \<and> findUniqueOperation s p = Some q
              \<and> o_discussionId q = d \<and> pv = o_result q)
         \<and> computeResult pv t (parseFloat (operand b)) = Inl e \<longrightarrow>
        OperationController_create s now b userId = (Response 500 (ThrownBody e), s))
     \<and> (findUniqueDiscussion s d = Some disc
         \<and> (\<not> truthy (parentId b)
            \<or> parentId b = JString p \<and> p \<noteq> [] \<and> findUniqueOperation s p = Some q
              \<and> o_discussionId q = d)
         \<and> t = ''DIVIDE'' \<and> parseFloat (operand b) = Finite 0 \<longrightarrow>
        OperationController_create s now b userId =
          (Response 500 (ThrownBody (Error ''Division by zero is not allowed'')), s))"
proof -
  note form = OperationController_create_valid [OF assms, of s now userId]
  show ?thesis
  proof (intro conjI impI)
    assume "findUniqueDiscussion s d = None"
    then show "OperationController_create s now b userId =
          (Response 404 (ErrorBody ''Discussion not found''), s)"
      using form by simp
  next
    assume "findUniqueDiscussion s d = Some disc \<and> parentId b = JString p \<and> p \<noteq> []
         \<and> findUniqueOperation s p = None"
    then show "OperationController_create s now b userId =
          (Response 404 (ErrorBody ''Parent operation not found''), s)"
      using form by (simp add: OperationRepository_findById_def)
  next
    assume "findUniqueDiscussion s d = Some disc \<and> parentId b = JString p \<and> p \<noteq> []
         \<and> findUniqueOperation s p = Some q \<and> o_discussionId q \<noteq> d"
    then show "OperationController_create s now b userId =
          (Response 400 (ErrorBody ''Parent operation does not belong to this discussion''), s)"
      using form assms(1) by (simp add: OperationRepository_findById_def)
  next
    assume "findUniqueDiscussion s d = Some disc
         \<and> (\<not> truthy (parentId b) \<and> pv = d_startingNumber disc
            \<or> parentId b = JString p \<and> p \<noteq> [] \<and> findUniqueOperation s p = Some q
              \<and> o_discussionId q = d \<and> pv = o_result q)
         \<and> computeResult pv t (parseFloat (operand b)) = Inl e"
    then show "OperationController_create s now b userId = (Response 500 (ThrownBody e), s)"
      using form assms(1) by (auto simp: OperationRepository_findById_def)
  next
    assume a: "findUniqueDiscussion s d = Some disc
         \<and> (\<not> truthy (parentId b)
            \<or> parentId b = JString p \<and> p \<noteq> [] \<and> findUniqueOperation s p = Some q
              \<and> o_discussionId q = d)
         \<and> t = ''DIVIDE'' \<and> parseFloat (operand b) = Finite 0"
    then have "\<And>v. computeResult v t (parseFloat (operand b))
        = Inl (Error ''Division by zero is not allowed'')"
      by (simp add: computeResult_def strict_eq_def)
    then show "OperationController_create s now b userId =
          (Response 500 (ThrownBody (Error ''Division by zero is not allowed'')), s)"
      using a form assms(1) by (auto simp: OperationRepository_findById_def)
  qed
qed

lemma cross_discussion_parent_rejected:
  assumes "parentId b = JString p" "p \<noteq> []" "findUniqueOperation s p = Some q"
    "JString (o_discussionId q) \<noteq> discussionId b"
  shows "snd (OperationController_create s now b userId) = s
         \<and> status (fst (OperationController_create s now b userId)) \<in> {400, 404, 500}"
proof -
  consider
      (missing) "\<not> truthy (discussionId b) \<or> \<not> truthy (operationType b)
                 \<or> operand b = JUndefined \<or> operand b = JNull"
    | (type) "operationType b \<notin> JString ` set validOperations"
    | (id) "\<forall>d. discussionId b \<noteq> JString d"
    | (valid) d t where "discussionId b = JString d" "d \<noteq> []" "operationType b = JString t"
        "t \<in> set validOperations" "operand b \<noteq> JUndefined" "operand b \<noteq> JNull"
    by (cases "discussionId b") auto
  then show ?thesis
  proof cases
    case missing
    then show ?thesis
      using OperationController_create_required [of b s now userId] by simp
  next
    case type
    then show ?thesis
      using OperationController_create_type [of b s now userId] by simp
  next
    case id
    then show ?thesis
      using OperationController_create_not_string [of b s now userId] by auto
  next
    case valid
    show ?thesis
      using OperationController_create_valid [OF valid, of s now userId] assms
      by (cases "findUniqueDiscussion s d") (simp_all add: OperationRepository_findById_def)
  qed
qed

text \<open>
  Claim C4. For a request that passes the presence and type checks: status 404 with
  ``Discussion not found'' when the discussion is missing; 404 with ``Parent operation
  not found'' when the named parent is missing; 400 with ``Parent operation does not
  belong to this discussion'' when the parent is another discussion's; and when
  \<open>computeResult\<close> throws (dividing by zero), status 500 with the thrown message. In
  each case the store is unchanged. For any request at all that names a parent of
  another discussion, nothing is stored and the status is an error's.
\<close>

theorem createOperation_errors:
  "(discussionId b = JString d \<and> d \<noteq> [] \<and> operationType b = JString t
    \<and> t \<in> set validOperations \<and> operand b \<noteq> JUndefined \<and> operand b \<noteq> JNull \<longrightarrow>
     (findUniqueDiscussion s d = None \<longrightarrow>
        OperationController_create s now b userId =
          (Response 404 (ErrorBody ''Discussion not found''), s))
     \<and> (findUniqueDiscussion s d = Some disc \<and> parentId b = JString p \<and> p \<noteq> []
         \<and> findUniqueOperation s p = None \<longrightarrow>
        OperationController_create s now b userId =
          (Response 404 (ErrorBody ''Parent operation not found''), s))
     \<and> (findUniqueDiscussion s d = Some disc \<and> parentId b = JString p \<and> p \<noteq> []
         \<and> findUniqueOperation s p = Some q \<and> o_discussionId q \<noteq> d \<longrightarrow>
        OperationController_create s now b userId =
          (Response 400 (ErrorBody ''Parent operation does not belong to this discussion''), s))
     \<and> (findUniqueDiscussion s d = Some disc
         \<and> (\<not> truthy (parentId b) \<and> pv = d_startingNumber disc
            \<or> parentId b = JString p \<and> p \<noteq> [] \<and> findUniqueOperation s p = Some q
              \<and> o_discussionId q = d \<and> pv = o_result q)
         \<and> computeResult pv t (parseFloat (operand b)) = Inl e \<longrightarrow>
        OperationController_create s now b userId = (Response 500 (ThrownBody e), s))
     \<and> (findUniqueDiscussion s d = Some disc
         \<and> (\<not> truthy (parentId b)
            \<or> parentId b = JString p \<and> p \<noteq> [] \<and> findUniqueOperation s p = Some q
              \<and> o_discussionId q = d)
         \<and> t = ''DIVIDE'' \<and> parseFloat (operand b) = Finite 0 \<longrightarrow>
        OperationController_create s now b userId =
          (Response 500 (ThrownBody (Error ''Division by zero is not allowed'')), s)))
   \<and> (parentId b = JString p \<and> p \<noteq> [] \<and> findUniqueOperation s p = Some q
       \<and> JString (o_discussionId q) \<noteq> discussionId b \<longrightarrow>
      snd (OperationController_create s now b userId) = s
      \<and> status (fst (OperationController_create s now b userId)) \<in> {400, 404, 500})"
proof (intro conjI)
  show "discussionId b = JString d \<and> d \<noteq> [] \<and> operationType b = JString t
    \<and> t \<in> set validOperations \<and> operand b \<noteq> JUndefined \<and> operand b \<noteq> JNull \<longrightarrow>
     (findUniqueDiscussion s d = None \<longrightarrow>
        OperationController_create s now b userId =
          (Response 404 (ErrorBody ''Discussion not found''), s))
     \<and> (findUniqueDiscussion s d = Some disc \<and> parentId b = JString p \<and> p \<noteq> []
         \<and> findUniqueOperation s p = None \<longrightarrow>
        OperationController_create s now b userId =
          (Response 404 (ErrorBody ''Parent operation not found''), s))
     \<and> (findUniqueDiscussion s d = Some disc \<and> parentId b = JString p \<and> p \<noteq> []
         \<and> findUniqueOperation s p = Some q \<and> o_discussionId q \<noteq> d \<longrightarrow>
        OperationController_create s now b userId =
          (Response 400 (ErrorBody ''Parent operation does not belong to this discussion''), s))
     \<and> (findUniqueDiscussion s d = Some disc
         \<and> (\<not> truthy (parentId b) \<and> pv = d_startingNumber disc
            \<or> parentId b = JString p \<and> p \<noteq> [] \<and> findUniqueOperation s p = Some q
              \<and> o_discussionId q = d \<and> pv = o_result q)
         \<and> computeResult pv t (parseFloat (operand b)) = Inl e \<longrightarrow>
        OperationController_create s now b userId = (Response 500 (ThrownBody e), s))
     \<and> (findUniqueDiscussion s d = Some disc
         \<and> (\<not> truthy (parentId b)
            \<or> parentId b = JString p \<and> p \<noteq> [] \<and> findUniqueOperation s p = Some q
              \<and> o_discussionId q = d)
         \<and> t = ''DIVIDE'' \<and> parseFloat (operand b) = Finite 0 \<longrightarrow>
        OperationController_create s now b userId =
          (Response 500 (ThrownBody (Error ''Division by zero is not allowed'')), s))"
  proof
    assume v: "discussionId b = JString d \<and> d \<noteq> [] \<and> operationType b = JString t
      \<and> t \<in> set validOperations \<and> operand b \<noteq> JUndefined \<and> operand b \<noteq> JNull"
    show "(findUniqueDiscussion s d = None \<longrightarrow>
        OperationController_create s now b userId =
          (Response 404 (ErrorBody ''Discussion not found''), s))
     \<and> (findUniqueDiscussion s d = Some disc \<and> parentId b = JString p \<and> p \<noteq> []
         \<and> findUniqueOperation s p = None \<longrightarrow>
        OperationController_create s now b userId =
          (Response 404 (ErrorBody ''Parent operation not found''), s))
     \<and> (findUniqueDiscussion s d = Some disc \<and> parentId b = JString p \<and> p \<noteq> []
         \<and> findUniqueOperation s p = Some q \<and> o_discussionId q \<noteq> d \<longrightarrow>
        OperationController_create s now b userId =
          (Response 400 (ErrorBody ''Parent operation does not belong to this discussion''), s))
     \<and> (findUniqueDiscussion s d = Some disc
         \<and> (\<not> truthy (parentId b) \<and> pv = d_startingNumber disc
            \<or> parentId b = JString p \<and> p \<noteq> [] \<and> findUniqueOperation s p = Some q
              \<and> o_discussionId q = d \<and> pv = o_result q)
         \<and> computeResult pv t (parseFloat (operand b)) = Inl e \<longrightarrow>
        OperationController_create s now b userId = (Response 500 (ThrownBody e), s))
     \<and> (findUniqueDiscussion s d = Some disc
         \<and> (\<not> truthy (parentId b)
            \<or> parentId b = JString p \<and> p \<noteq> [] \<and> findUniqueOperation s p = Some q
              \<and> o_discussionId q = d)
         \<and> t = ''DIVIDE'' \<and> parseFloat (operand b) = Finite 0 \<longrightarrow>
        OperationController_create s now b userId =
          (Response 500 (ThrownBody (Error ''Division by zero is not allowed'')), s))"
      by (rule createOperation_errors_valid) (simp_all add: v)
  qed
next
  show "parentId b = JString p \<and> p \<noteq> [] \<and> findUniqueOperation s p = Some q
       \<and> JString (o_discussionId q) \<noteq> discussionId b \<longrightarrow>
      snd (OperationController_create s now b userId) = s
      \<and> status (fst (OperationController_create s now b userId)) \<in> {400, 404, 500}"
    using cross_discussion_parent_rejected [of b p s q now userId] by blast
qed

theorem createOperation_errors_witness:
  "OperationController_create scenarioTwo 9
       \<lparr>discussionId = JString ''zzz'', parentId = JUndefined,
        operationType = JString ''ADD'', operand = JNumber 1\<rparr> ''bob'' =
     (Response 404 (ErrorBody ''Discussion not found''), scenarioTwo)
   \<and> OperationController_create scenarioTwo 9
       \<lparr>discussionId = JString ''c'', parentId = JString ''zzz'',
        operationType = JString ''ADD'', operand = JNumber 1\<rparr> ''bob'' =
     (Response 404 (ErrorBody ''Parent operation not found''), scenarioTwo)
   \<and> OperationController_create scenarioTwo 9
       \<lparr>discussionId = JString ''c000'', parentId = JString ''c0'',
        operationType = JString ''ADD'', operand = JNumber 1\<rparr> ''bob'' =
     (Response 400 (ErrorBody ''Parent operation does not belong to this discussion''),
      scenarioTwo)
   \<and> OperationController_create scenarioTwo 9
       \<lparr>discussionId = JString ''c'', parentId = JString ''c0'',
        operationType = JString ''DIVIDE'', operand = JNumber 0\<rparr> ''bob'' =
     (Response 500 (ThrownBody (Error ''Division by zero is not allowed'')), scenarioTwo)
   \<and> OperationController_create scenarioTwo 9
       \<lparr>discussionId = JString ''c'', parentId = JNull,
        operationType = JString ''DIVIDE'', operand = JNumber 0\<rparr> ''bob'' =
     (Response 500 (ThrownBody (Error ''Division by zero is not allowed'')), scenarioTwo)
   \<and> snd (OperationController_create scenarioTwo 9
       \<lparr>discussionId = JString ''c000'', parentId = JString ''c0'',
        operationType = JString ''POWER'', operand = JNumber 1\<rparr> ''bob'') = scenarioTwo"
proof -
  have div0: "computeResult v ''DIVIDE'' (Finite 0)
      = Inl (Error ''Division by zero is not allowed'')" for v
    by (simp add: computeResult_def strict_eq_def)
  have a: "OperationController_create scenarioTwo 9
       \<lparr>discussionId = JString ''zzz'', parentId = JUndefined,
        operationType = JString ''ADD'', operand = JNumber 1\<rparr> ''bob'' =
     (Response 404 (ErrorBody ''Discussion not found''), scenarioTwo)"
    using createOperation_errors [where b = "\<lparr>discussionId = JString ''zzz'',
        parentId = JUndefined, operationType = JString ''ADD'', operand = JNumber 1\<rparr>"
        and d = "''zzz''" and t = "''ADD''" and s = scenarioTwo and now = 9
        and userId = "''bob''"]
    by (simp add: find_scenarioTwo validOperations_def)
  have b: "OperationController_create scenarioTwo 9
       \<lparr>discussionId = JString ''c'', parentId = JString ''zzz'',
        operationType = JString ''ADD'', operand = JNumber 1\<rparr> ''bob'' =
     (Response 404 (ErrorBody ''Parent operation not found''), scenarioTwo)"
    using createOperation_errors [where b = "\<lparr>discussionId = JString ''c'',
        parentId = JString ''zzz'', operationType = JString ''ADD'', operand = JNumber 1\<rparr>"
        and d = "''c''" and t = "''ADD''" and s = scenarioTwo and now = 9
        and userId = "''bob''" and disc = theDiscussion and p = "''zzz''"]
    by (simp add: find_scenarioTwo validOperations_def)
  have c: "OperationController_create scenarioTwo 9
       \<lparr>discussionId = JString ''c000'', parentId = JString ''c0'',
        operationType = JString ''ADD'', operand = JNumber 1\<rparr> ''bob'' =
     (Response 400 (ErrorBody ''Parent operation does not belong to this discussion''),
      scenarioTwo)"
    using createOperation_errors [where b = "\<lparr>discussionId = JString ''c000'',
        parentId = JString ''c0'', operationType = JString ''ADD'', operand = JNumber 1\<rparr>"
        and d = "''c000''" and t = "''ADD''" and s = scenarioTwo and now = 9
        and userId = "''bob''" and disc = otherDiscussion and p = "''c0''"
        and q = firstOperation]
    by (simp add: find_scenarioTwo validOperations_def firstOperation_def)
  have d: "OperationController_create scenarioTwo 9
       \<lparr>discussionId = JString ''c'', parentId = JString ''c0'',
        operationType = JString ''DIVIDE'', operand = JNumber 0\<rparr> ''bob'' =
     (Response 500 (ThrownBody (Error ''Division by zero is not allowed'')), scenarioTwo)"
    using createOperation_errors [where b = "\<lparr>discussionId = JString ''c'',
        parentId = JString ''c0'', operationType = JString ''DIVIDE'', operand = JNumber 0\<rparr>"
        and d = "''c''" and t = "''DIVIDE''" and s = scenarioTwo and now = 9
        and userId = "''bob''" and disc = theDiscussion and p = "''c0''"
        and q = firstOperation and pv = "Finite 52"
        and e = "Error ''Division by zero is not allowed''"]
    by (simp add: find_scenarioTwo validOperations_def firstOperation_def div0)
  have e: "OperationController_create scenarioTwo 9
       \<lparr>discussionId = JString ''c'', parentId = JNull,
        operationType = JString ''DIVIDE'', operand = JNumber 0\<rparr> ''bob'' =
     (Response 500 (ThrownBody (Error ''Division by zero is not allowed'')), scenarioTwo)"
    using createOperation_errors [where b = "\<lparr>discussionId = JString ''c'',
        parentId = JNull, operationType = JString ''DIVIDE'', operand = JNumber 0\<rparr>"
        and d = "''c''" and t = "''DIVIDE''" and s = scenarioTwo and now = 9
        and userId = "''bob''" and disc = theDiscussion]
    by (simp add: find_scenarioTwo validOperations_def)
  have f: "snd (OperationController_create scenarioTwo 9
       \<lparr>discussionId = JString ''c000'', parentId = JString ''c0'',
        operationType = JString ''POWER'', operand = JNumber 1\<rparr> ''bob'') = scenarioTwo"
    using createOperation_errors [where b = "\<lparr>discussionId = JString ''c000'',
        parentId = JString ''c0'', operationType = JString ''POWER'', operand = JNumber 1\<rparr>"
        and s = scenarioTwo and now = 9 and userId = "''bob''" and p = "''c0''"
        and q = firstOperation]
    by (simp add: find_scenarioTwo firstOperation_def)
  show ?thesis using a b c d e f by simp
qed

text \<open>
  Claim C10. When the request's \<^verbatim>\<open>parentId\<close> is falsy (absent, null, the empty
  string, \<^verbatim>\<open>false\<close> or \<^verbatim>\<open>0\<close>) the answer is never one of the two the parent lookup
  gives, and a request that passes the other checks creates an operation with no parent
  whose result is \<open>computeResult\<close> on the discussion's starting number.
\<close>

theorem createOperation_root:
  assumes "\<not> truthy (parentId b)"
  shows
    "fst (OperationController_create s now b userId)
        \<noteq> Response 404 (ErrorBody ''Parent operation not found'')
     \<and> fst (OperationController_create s now b userId)
        \<noteq> Response 400 (ErrorBody ''Parent operation does not belong to this discussion'')
     \<and> (discussionId b = JString d \<and> d \<noteq> [] \<and> operationType b = JString t
         \<and> t \<in> set validOperations \<and> operand b \<noteq> JUndefined \<and> operand b \<noteq> JNull
         \<and> findUniqueDiscussion s d = Some disc
         \<and> computeResult (d_startingNumber disc) t (parseFloat (operand b)) = Inr r \<longrightarrow>
        OperationController_create s now b userId =
          (Response 201 (OperationBody
             \<lparr>o_id = newId (nextId s), o_discussionId = d, o_parentId = None,
              o_operationType = t, o_operand = parseFloat (operand b), o_result = r,
              o_authorId = userId, o_createdAt = now\<rparr>),
           s\<lparr>operations :=
               \<lparr>o_id = newId (nextId s), o_discussionId = d, o_parentId = None,
                o_operationType = t, o_operand = parseFloat (operand b), o_result = r,
                o_authorId = userId, o_createdAt = now\<rparr> # operations s,
             nextId := Suc (nextId s)\<rparr>))"
proof -
  have never: "fst (OperationController_create s now b userId)
        \<noteq> Response 404 (ErrorBody ''Parent operation not found'')
     \<and> fst (OperationController_create s now b userId)
        \<noteq> Response 400 (ErrorBody ''Parent operation does not belong to this discussion'')"
    using assms
    by (auto simp: OperationController_create_def Let_def
             split: option.splits sum.splits jsval.splits prod.splits)
  have ok: "OperationController_create s now b userId =
          (Response 201 (OperationBody
             \<lparr>o_id = newId (nextId s), o_discussionId = d, o_parentId = None,
              o_operationType = t, o_operand = parseFloat (operand b), o_result = r,
              o_authorId = userId, o_createdAt = now\<rparr>),
           s\<lparr>operations :=
               \<lparr>o_id = newId (nextId s), o_discussionId = d, o_parentId = None,
                o_operationType = t, o_operand = parseFloat (operand b), o_result = r,
                o_authorId = userId, o_createdAt = now\<rparr> # operations s,
             nextId := Suc (nextId s)\<rparr>)"
    if "discussionId b = JString d" "d \<noteq> []" "operationType b = JString t"
      "t \<in> set validOperations" "operand b \<noteq> JUndefined" "operand b \<noteq> JNull"
      "findUniqueDiscussion s d = Some disc"
      "computeResult (d_startingNumber disc) t (parseFloat (operand b)) = Inr r"
    using OperationController_create_valid [OF that(1-6), of s now userId] that(1,7,8) assms
    by (simp add: OperationRepository_create_def Let_def)
  show ?thesis using never ok by blast
qed

theorem createOperation_root_witness:
  "\<not> truthy (JString [])
   \<and> OperationController_create scenarioTwo 9
       \<lparr>discussionId = JString ''c'', parentId = JString [],
        operationType = JString ''SUBTRACT'', operand = JNumber 2\<rparr> ''bob'' =
     (Response 201 (OperationBody
        \<lparr>o_id = ''c0000'', o_discussionId = ''c'', o_parentId = None,
         o_operationType = ''SUBTRACT'', o_operand = Finite 2, o_result = Finite 40,
         o_authorId = ''bob'', o_createdAt = 9\<rparr>),
      scenarioTwo\<lparr>operations :=
         \<lparr>o_id = ''c0000'', o_discussionId = ''c'', o_parentId = None,
          o_operationType = ''SUBTRACT'', o_operand = Finite 2, o_result = Finite 40,
          o_authorId = ''bob'', o_createdAt = 9\<rparr> # operations scenarioTwo,
         nextId := Suc (nextId scenarioTwo)\<rparr>)"
proof -
  have r: "computeResult (Finite 42) ''SUBTRACT'' (Finite 2) = Inr (Finite 40)"
    by (simp add: computeResult_def js_sub_def)
  have n: "newId (nextId scenarioTwo) = ''c0000''"
    by (simp add: scenarioTwo_eq newId_def eval_nat_numeral)
  show ?thesis
    using createOperation_root [where b = "\<lparr>discussionId = JString ''c'',
        parentId = JString [], operationType = JString ''SUBTRACT'', operand = JNumber 2\<rparr>"
        and d = "''c''" and t = "''SUBTRACT''" and s = scenarioTwo and now = 9
        and userId = "''bob''" and disc = theDiscussion and r = "Finite 40"] r n
    by (simp add: find_scenarioTwo validOperations_def theDiscussion_def)
qed

section \<open>Malformed requests\<close>

lemma DiscussionController_create_present:
  assumes "startingNumber \<noteq> JUndefined" "startingNumber \<noteq> JNull"
  shows "status (fst (DiscussionController_create s now startingNumber userId)) \<in> {201, 409}"
  using assms
  by (auto simp: DiscussionController_create_def DiscussionRepository_create_def Let_def
           split: option.splits)

lemma DiscussionController_update_present:
  assumes "i \<noteq> []" "startingNumber \<noteq> JUndefined" "startingNumber \<noteq> JNull"
  shows "status (fst (DiscussionController_update s i startingNumber userId)) \<noteq> 400"
  using assms
  by (auto simp: DiscussionController_update_def DiscussionRepository_findById_def Let_def
           split: option.splits sum.splits)

lemma OperationController_create_present:
  assumes "truthy (discussionId b)" "truthy (operationType b)"
    "operand b \<noteq> JUndefined" "operand b \<noteq> JNull"
    "operationType b \<in> JString ` set validOperations"
  shows "fst (OperationController_create s now b userId) \<noteq>
           Response 400 (ErrorBody ''discussionId, operationType, and operand are required'')
         \<and> fst (OperationController_create s now b userId) \<noteq>
           Response 400 (ErrorBody ''operationType must be ADD, SUBTRACT, MULTIPLY, or DIVIDE'')"
  using assms
  by (auto simp: OperationController_create_def Let_def
           split: option.splits sum.splits prod.splits)

lemma controllers_read_parseFloat:
  assumes "x \<noteq> JUndefined" "x \<noteq> JNull" "y \<noteq> JUndefined" "y \<noteq> JNull"
    "parseFloat x = parseFloat y"
  shows "DiscussionController_create s now x userId = DiscussionController_create s now y userId"
    and "DiscussionController_update s i x userId = DiscussionController_update s i y userId"
    and "operand b = x \<Longrightarrow>
         OperationController_create s now b userId =
         OperationController_create s now (b\<lparr>operand := y\<rparr>) userId"
  using assms
  by (simp_all add: DiscussionController_create_def DiscussionController_update_def
        OperationController_create_def Let_def
        cong: option.case_cong sum.case_cong if_cong prod.case_cong)

text \<open>
  Claim C8, as the code has it. Status 400 and an unchanged store when the starting
  number is absent or null (create and update a discussion), and when the discussion
  identity or the operation type is falsy, the operand is absent or null, or the
  operation type is not one of the four strings (create an operation). A starting number
  or operand of any other form is not rejected as malformed: creating a discussion then
  answers 201 or 409, the update never answers 400, creating an operation never gives
  one of the two answers of the checks; and the value enters only through
  \<^verbatim>\<open>parseFloat\<close>: two present values that \<^verbatim>\<open>parseFloat\<close> reads as the same number
  get the same answer and the same store.
\<close>

theorem badRequest_rejected:
  "(startingNumber = JUndefined \<or> startingNumber = JNull \<longrightarrow>
      DiscussionController_create s now startingNumber userId =
        (Response 400 (ErrorBody ''startingNumber is required''), s)
      \<and> status (fst (DiscussionController_update s i startingNumber userId)) = 400
      \<and> snd (DiscussionController_update s i startingNumber userId) = s)
   \<and> (\<not> truthy (discussionId b) \<or> \<not> truthy (operationType b)
       \<or> operand b = JUndefined \<or> operand b = JNull
       \<or> operationType b \<notin> JString ` set validOperations \<longrightarrow>
      status (fst (OperationController_create s now b userId)) = 400
      \<and> snd (OperationController_create s now b userId) = s)
   \<and> (startingNumber \<noteq> JUndefined \<and> startingNumber \<noteq> JNull \<longrightarrow>
      status (fst (DiscussionController_create s now startingNumber userId)) \<in> {201, 409}
      \<and> (i \<noteq> [] \<longrightarrow>
           status (fst (DiscussionController_update s i startingNumber userId)) \<noteq> 400))
   \<and> (truthy (discussionId b) \<and> truthy (operationType b)
       \<and> operand b \<noteq> JUndefined \<and> operand b \<noteq> JNull
       \<and> operationType b \<in> JString ` set validOperations \<longrightarrow>
      fst (OperationController_create s now b userId) \<noteq>
        Response 400 (ErrorBody ''discussionId, operationType, and operand are required'')
      \<and> fst (OperationController_create s now b userId) \<noteq>
        Response 400 (ErrorBody ''operationType must be ADD, SUBTRACT, MULTIPLY, or DIVIDE''))
   \<and> (startingNumber \<noteq> JUndefined \<and> startingNumber \<noteq> JNull
       \<and> other \<noteq> JUndefined \<and> other \<noteq> JNull
       \<and> parseFloat startingNumber = parseFloat other \<longrightarrow>
      DiscussionController_create s now startingNumber userId =
        DiscussionController_create s now other userId
      \<and> DiscussionController_update s i startingNumber userId =
        DiscussionController_update s i other userId)
   \<and> (operand b \<noteq> JUndefined \<and> operand b \<noteq> JNull
       \<and> other \<noteq> JUndefined \<and> other \<noteq> JNull
       \<and> parseFloat (operand b) = parseFloat other \<longrightarrow>
      OperationController_create s now b userId =
        OperationController_create s now (b\<lparr>operand := other\<rparr>) userId)"
proof (intro conjI impI)
  assume "startingNumber = JUndefined \<or> startingNumber = JNull"
  then show "DiscussionController_create s now startingNumber userId =
        (Response 400 (ErrorBody ''startingNumber is required''), s)"
    by (auto simp: DiscussionController_create_def)
next
  assume "startingNumber = JUndefined \<or> startingNumber = JNull"
  then show "status (fst (DiscussionController_update s i startingNumber userId)) = 400"
    by (auto simp: DiscussionController_update_def)
next
  assume "startingNumber = JUndefined \<or> startingNumber = JNull"
  then show "snd (DiscussionController_update s i startingNumber userId) = s"
    by (auto simp: DiscussionController_update_def)
next
  assume a: "\<not> truthy (discussionId b) \<or> \<not> truthy (operationType b)
       \<or> operand b = JUndefined \<or> operand b = JNull
       \<or> operationType b \<notin> JString ` set validOperations"
  show "status (fst (OperationController_create s now b userId)) = 400"
    using a OperationController_create_required [of b s now userId]
      OperationController_create_type [of b s now userId] by fastforce
next
  assume a: "\<not> truthy (discussionId b) \<or> \<not> truthy (operationType b)
       \<or> operand b = JUndefined \<or> operand b = JNull
       \<or> operationType b \<notin> JString ` set validOperations"
  show "snd (OperationController_create s now b userId) = s"
    using a OperationController_create_required [of b s now userId]
      OperationController_create_type [of b s now userId] by fastforce
next
  assume "startingNumber \<noteq> JUndefined \<and> startingNumber \<noteq> JNull"
  then show "status (fst (DiscussionController_create s now startingNumber userId))
      \<in> {201, 409}"
    using DiscussionController_create_present by blast
next
  assume "startingNumber \<noteq> JUndefined \<and> startingNumber \<noteq> JNull" "i \<noteq> []"
  then show "status (fst (DiscussionController_update s i startingNumber userId)) \<noteq> 400"
    using DiscussionController_update_present by blast
next
  assume a: "truthy (discussionId b) \<and> truthy (operationType b)
       \<and> operand b \<noteq> JUndefined \<and> operand b \<noteq> JNull
       \<and> operationType b \<in> JString ` set validOperations"
  show "fst (OperationController_create s now b userId) \<noteq>
        Response 400 (ErrorBody ''discussionId, operationType, and operand are required'')"
    and "fst (OperationController_create s now b userId) \<noteq>
        Response 400 (ErrorBody ''operationType must be ADD, SUBTRACT, MULTIPLY, or DIVIDE'')"
    using a OperationController_create_present [of b s now userId] by blast+
next
  assume a: "startingNumber \<noteq> JUndefined \<and> startingNumber \<noteq> JNull
       \<and> other \<noteq> JUndefined \<and> other \<noteq> JNull
       \<and> parseFloat startingNumber = parseFloat other"
  show "DiscussionController_create s now startingNumber userId =
        DiscussionController_create s now other userId"
    and "DiscussionController_update s i startingNumber userId =
        DiscussionController_update s i other userId"
    using a controllers_read_parseFloat(1,2) [of startingNumber other] by blast+
next
  assume a: "operand b \<noteq> JUndefined \<and> operand b \<noteq> JNull
       \<and> other \<noteq> JUndefined \<and> other \<noteq> JNull
       \<and> parseFloat (operand b) = parseFloat other"
  show "OperationController_create s now b userId =
        OperationController_create s now (b\<lparr>operand := other\<rparr>) userId"
    using a controllers_read_parseFloat(3) [of "operand b" other b] by blast
qed

theorem badRequest_rejected_witness:
  "DiscussionController_create scenarioTwo 9 JNull ''bob'' =
     (Response 400 (ErrorBody ''startingNumber is required''), scenarioTwo)
   \<and> status (fst (DiscussionController_update scenarioTwo ''c'' JNull ''alice'')) = 400
   \<and> snd (DiscussionController_update scenarioTwo ''c'' JNull ''alice'') = scenarioTwo
   \<and> status (fst (OperationController_create scenarioTwo 9
        \<lparr>discussionId = JString ''c'', parentId = JNull,
         operationType = JString ''POWER'', operand = JNumber 2\<rparr> ''bob'')) = 400
   \<and> snd (OperationController_create scenarioTwo 9
        \<lparr>discussionId = JString ''c'', parentId = JNull,
         operationType = JString ''POWER'', operand = JNumber 2\<rparr> ''bob'') = scenarioTwo
   \<and> status (fst (DiscussionController_create scenarioTwo 9 (JString ''xyz'') ''bob''))
       \<in> {201, 409}
   \<and> status (fst (DiscussionController_update scenarioTwo ''c'' (JString ''xyz'') ''alice''))
       \<noteq> 400
   \<and> fst (OperationController_create scenarioTwo 9
        \<lparr>discussionId = JString ''c'', parentId = JNull,
         operationType = JString ''ADD'', operand = JString ''xyz''\<rparr> ''bob'') \<noteq>
       Response 400 (ErrorBody ''discussionId, operationType, and operand are required'')
   \<and> DiscussionController_create scenarioTwo 9 (JString ''12abc'') ''bob'' =
       DiscussionController_create scenarioTwo 9 (JNumber 12) ''bob''
   \<and> OperationController_create scenarioTwo 9
        \<lparr>discussionId = JString ''c'', parentId = JNull,
         operationType = JString ''ADD'', operand = JString ''12abc''\<rparr> ''bob'' =
       OperationController_create scenarioTwo 9
        \<lparr>discussionId = JString ''c'', parentId = JNull,
         operationType = JString ''ADD'', operand = JNumber 12\<rparr> ''bob''"
proof -
  note r1 = badRequest_rejected [where startingNumber = JNull and s = scenarioTwo and now = 9
      and userId = "''bob''" and i = "''c''"
      and b = "\<lparr>discussionId = JString ''c'', parentId = JNull,
         operationType = JString ''POWER'', operand = JNumber 2\<rparr>"]
  note r2 = badRequest_rejected [where startingNumber = JNull and s = scenarioTwo and now = 9
      and userId = "''alice''" and i = "''c''"
      and b = "\<lparr>discussionId = JString ''c'', parentId = JNull,
         operationType = JString ''POWER'', operand = JNumber 2\<rparr>"]
  note r3 = badRequest_rejected [where startingNumber = "JString ''xyz''" and s = scenarioTwo
      and now = 9 and userId = "''bob''" and i = "''c''"
      and b = "\<lparr>discussionId = JString ''c'', parentId = JNull,
         operationType = JString ''ADD'', operand = JString ''xyz''\<rparr>"]
  note r4 = badRequest_rejected [where startingNumber = "JString ''xyz''" and s = scenarioTwo
      and now = 9 and userId = "''alice''" and i = "''c''"
      and b = "\<lparr>discussionId = JString ''c'', parentId = JNull,
         operationType = JString ''ADD'', operand = JString ''xyz''\<rparr>"]
  note r5 = badRequest_rejected [where startingNumber = "JString ''12abc''"
      and other = "JNumber 12" and s = scenarioTwo and now = 9 and userId = "''bob''"
      and b = "\<lparr>discussionId = JString ''c'', parentId = JNull,
         operationType = JString ''ADD'', operand = JString ''12abc''\<rparr>"]
  have p: "parseFloat (JString ''12abc'') = parseFloat (JNumber 12)"
    by (simp add: parseFloat_12abc)
  have 1: "DiscussionController_create scenarioTwo 9 JNull ''bob'' =
     (Response 400 (ErrorBody ''startingNumber is required''), scenarioTwo)"
    using r1 by simp
  have 2: "status (fst (DiscussionController_update scenarioTwo ''c'' JNull ''alice'')) = 400"
    "snd (DiscussionController_update scenarioTwo ''c'' JNull ''alice'') = scenarioTwo"
    using r2 by simp_all
  have 3: "status (fst (OperationController_create scenarioTwo 9
        \<lparr>discussionId = JString ''c'', parentId = JNull,
         operationType = JString ''POWER'', operand = JNumber 2\<rparr> ''bob'')) = 400"
    "snd (OperationController_create scenarioTwo 9
        \<lparr>discussionId = JString ''c'', parentId = JNull,
         operationType = JString ''POWER'', operand = JNumber 2\<rparr> ''bob'') = scenarioTwo"
    using r1 by (simp_all add: validOperations_def)
  have 4: "status (fst (DiscussionController_create scenarioTwo 9 (JString ''xyz'') ''bob''))
       \<in> {201, 409}"
    using r3 by simp
  have 5: "status (fst (DiscussionController_update scenarioTwo ''c'' (JString ''xyz'')
       ''alice'')) \<noteq> 400"
    using r4 by simp
  have 6: "fst (OperationController_create scenarioTwo 9
        \<lparr>discussionId = JString ''c'', parentId = JNull,
         operationType = JString ''ADD'', operand = JString ''xyz''\<rparr> ''bob'') \<noteq>
       Response 400 (ErrorBody ''discussionId, operationType, and operand are required'')"
    using r3 by (simp add: validOperations_def)
  have 7: "DiscussionController_create scenarioTwo 9 (JString ''12abc'') ''bob'' =
       DiscussionController_create scenarioTwo 9 (JNumber 12) ''bob''"
    using r5 p by simp
  have 8: "OperationController_create scenarioTwo 9
        \<lparr>discussionId = JString ''c'', parentId = JNull,
         operationType = JString ''ADD'', operand = JString ''12abc''\<rparr> ''bob'' =
       OperationController_create scenarioTwo 9
        \<lparr>discussionId = JString ''c'', parentId = JNull,
         operationType = JString ''ADD'', operand = JNumber 12\<rparr> ''bob''"
    using r5 p by simp
  show ?thesis by (intro conjI 1 2 3 4 5 6 7 8)
qed

text \<open>
  The claim as the spec states it fails: the strings \<^verbatim>\<open>12abc\<close> and
  \<^verbatim>\<open>10 apples\<close> are not numbers, and both requests are answered 201 with a new row.
\<close>

theorem badRequest_counterexample:
  "DiscussionController_create emptyStore 1 (JString ''12abc'') ''alice'' =
     (Response 201 (DiscussionBody
        \<lparr>d_id = ''c'', d_startingNumber = Finite 12, d_authorId = ''alice'',
         d_createdAt = 1\<rparr>),
      \<lparr>discussions = [\<lparr>d_id = ''c'', d_startingNumber = Finite 12, d_authorId = ''alice'',
                        d_createdAt = 1\<rparr>],
       operations = [], nextId = 1\<rparr>)
   \<and> OperationController_create scenario1 2
       \<lparr>discussionId = JString ''c'', parentId = JUndefined,
        operationType = JString ''ADD'', operand = JString ''10 apples''\<rparr> ''bob'' =
     (Response 201 (OperationBody firstOperation), scenario2)"
  by (simp add: scenario1_eq scenario2_eq theDiscussion_def firstOperation_def eval_defs
        parseFloat_12abc parseFloat_10_apples)

section \<open>The chain of an operation: properties\<close>

lemma chainLoop_None: "chainLoop s None chain = Some chain"
  by (subst chainLoop.simps) simp

lemma chainLoop_root:
  "o_parentId x = None \<Longrightarrow> chainLoop s (Some x) chain = Some (x # chain)"
  by (subst chainLoop.simps) simp

lemma chainLoop_step:
  "o_parentId x = Some p \<Longrightarrow> p \<noteq> [] \<Longrightarrow>
   chainLoop s (Some x) chain = chainLoop s (findUniqueOperation s p) (x # chain)"
  by (subst chainLoop.simps) simp

lemma linked_append:
  "linked par (xs @ ys) =
     (linked par xs \<and> linked (if xs = [] then par else Some (o_id (last xs))) ys)"
  by (induction xs arbitrary: par) auto

lemma operationsOk_distinct: "operationsOk xs \<Longrightarrow> distinct (map o_id xs)"
  by (induction xs) auto

lemma operationsOk_nonempty: "operationsOk xs \<Longrightarrow> x \<in> set xs \<Longrightarrow> o_id x \<noteq> []"
  by (induction xs) auto

lemma operationsOk_parent:
  "operationsOk xs \<Longrightarrow> x \<in> set xs \<Longrightarrow> o_parentId x = Some p \<Longrightarrow>
   \<exists>q \<in> set xs. o_id q = p \<and> o_discussionId q = o_discussionId x"
  by (induction xs) auto

lemma findUniqueOperation_member:
  assumes "operationsOk (operations s)" "x \<in> set (operations s)"
  shows "findUniqueOperation s (o_id x) = Some x"
  unfolding findUniqueOperation_def
  using find_distinct_key [OF operationsOk_distinct [OF assms(1)] assms(2)] .

lemma chainLoop_path:
  assumes ok: "operationsOk (operations s)"
  shows "path \<noteq> [] \<Longrightarrow> linked None path \<Longrightarrow> set path \<subseteq> set (operations s) \<Longrightarrow>
         chainLoop s (Some (last path)) acc = Some (path @ acc)"
proof (induction path arbitrary: acc rule: rev_induct)
  case Nil
  then show ?case by simp
next
  case (snoc x ys)
  show ?case
  proof (cases "ys = []")
    case True
    then show ?thesis using snoc.prems by (simp add: chainLoop_root)
  next
    case False
    let ?y = "last ys"
    have link: "linked None ys" "o_parentId x = Some (o_id ?y)"
      using snoc.prems(2) False by (simp_all add: linked_append)
    have mem: "?y \<in> set (operations s)" "set ys \<subseteq> set (operations s)"
      using snoc.prems(3) False by auto
    have ne: "o_id ?y \<noteq> []"
      using operationsOk_nonempty [OF ok mem(1)] .
    have "chainLoop s (Some x) acc = chainLoop s (Some ?y) (x # acc)"
      using chainLoop_step [OF link(2) ne] findUniqueOperation_member [OF ok mem(1)] by simp
    also have "\<dots> = Some (ys @ x # acc)"
      using snoc.IH [OF False link(1) mem(2)] .
    finally show ?thesis by simp
  qed
qed

lemma path_exists:
  "operationsOk xs \<Longrightarrow> x \<in> set xs \<Longrightarrow>
   \<exists>path. path \<noteq> [] \<and> last path = x \<and> linked None path \<and> set path \<subseteq> set xs"
proof (induction xs arbitrary: x)
  case Nil
  then show ?case by simp
next
  case (Cons a xs)
  show ?case
  proof (cases "x \<in> set xs")
    case True
    with Cons obtain path where "path \<noteq> []" "last path = x" "linked None path"
      "set path \<subseteq> set xs" by (metis operationsOk.simps(2))
    then show ?thesis by (intro exI [of _ path]) auto
  next
    case False
    then have xa: "x = a" using Cons.prems by simp
    show ?thesis
    proof (cases "o_parentId a")
      case None
      then show ?thesis using xa by (intro exI [of _ "[a]"]) simp
    next
      case (Some p)
      then obtain q where q: "q \<in> set xs" "o_id q = p"
        using Cons.prems(1) by auto
      from Cons.IH [OF _ q(1)] Cons.prems(1)
      obtain path where path: "path \<noteq> []" "last path = q" "linked None path"
        "set path \<subseteq> set xs" by auto
      show ?thesis
        using path q Some xa
        by (intro exI [of _ "path @ [a]"]) (auto simp: linked_append)
    qed
  qed
qed

lemma getOperationChain_total:
  assumes "operationsOk (operations s)"
  shows "\<exists>chain. OperationModel_getOperationChain s i = Some chain"
proof (cases "findUniqueOperation s i")
  case None
  then show ?thesis by (simp add: OperationModel_getOperationChain_def chainLoop_None)
next
  case (Some x)
  then have x: "x \<in> set (operations s)" "o_id x = i"
    using find_SomeD [of "\<lambda>x. o_id x = i" "operations s" x]
    by (auto simp: findUniqueOperation_def)
  from path_exists [OF assms x(1)]
  obtain path where path: "path \<noteq> []" "last path = x" "linked None path"
      "set path \<subseteq> set (operations s)" by blast
  from chainLoop_path [OF assms path(1,3,4), of "[]"] path(2) Some
  show ?thesis by (simp add: OperationModel_getOperationChain_def)
qed

text \<open>
  Claim C7. In every store the writing routes can produce, the operations table is
  well formed (a parent is an older row of the same discussion, so creation order
  strictly decreases along every parent edge and no cycle exists), and
  \<open>getOperationChain\<close> returns: its loop ends, for every operation identity.
\<close>

theorem getOperationChain_terminates:
  assumes "reachable s"
  shows "operationsOk (operations s)
         \<and> (\<exists>chain. OperationModel_getOperationChain s i = Some chain)"
  using reachable_storeOk [OF assms] getOperationChain_total [of s i]
  by (simp add: storeOk_def)

theorem getOperationChain_terminates_witness:
  "reachable scenarioUpdated
   \<and> operationsOk (operations scenarioUpdated)
   \<and> (\<exists>chain. OperationModel_getOperationChain scenarioUpdated ''c00'' = Some chain)"
  using getOperationChain_terminates [OF reachable_scenarioUpdated, of "''c00''"]
    reachable_scenarioUpdated
  by simp

text \<open>
  Claim C6, as the code has it. When the identity names no stored operation the loop
  body never runs and \<open>getOperationChain\<close> returns the empty chain; it does not fail.
\<close>

theorem getOperationChain_missing:
  assumes "findUniqueOperation s i = None"
  shows "OperationModel_getOperationChain s i = Some []"
  using assms by (simp add: OperationModel_getOperationChain_def chainLoop_None)

theorem getOperationChain_missing_witness:
  "findUniqueOperation scenario3 ''c9'' = None
   \<and> OperationModel_getOperationChain scenario3 ''c9'' = Some []"
proof -
  have "findUniqueOperation scenario3 ''c9'' = None"
    by (simp add: scenario3_eq findUniqueOperation_def firstOperation_def
          secondOperation_def)
  then show ?thesis using getOperationChain_missing [of scenario3 "''c9''"] by simp
qed

text \<open>
  The claim as the spec states it fails: in the empty store no operation has the
  identity asked for, and the call returns normally, with the empty list.
\<close>

theorem getOperationChain_missing_counterexample:
  "findUniqueOperation emptyStore ''c0'' = None
   \<and> OperationModel_getOperationChain emptyStore ''c0'' = Some []"
  by (simp add: OperationModel_getOperationChain_def chainLoop_None findUniqueOperation_def
        emptyStore_def)

text \<open>
  Stored results. Every writing route keeps \<open>childrenOk\<close>; the routes that
  \<open>settled s i\<close> allows keep \<open>rootsOk s i\<close>.
\<close>

lemma operations_discussion_create:
  "operations (snd (DiscussionController_create s now sn u)) = operations s"
  using DiscussionController_create_store [of s now sn u] by auto

lemma operations_discussion_update:
  "operations (snd (DiscussionController_update s i sn u)) = operations s"
  using DiscussionController_update_store [of s i sn u] by auto

lemma childrenOk_operations:
  "operations s' = operations s \<Longrightarrow> childrenOk s' = childrenOk s"
  by (simp add: childrenOk_def findUniqueOperation_def cong: option.case_cong)

lemma childrenOk_operation:
  assumes "storeOk s" "childrenOk s"
  shows "childrenOk (snd (OperationController_create s now b u))"
proof (cases "snd (OperationController_create s now b u) = s")
  case True
  then show ?thesis using assms by simp
next
  case False
  let ?s' = "snd (OperationController_create s now b u)"
  from OperationController_create_store [OF False]
  obtain d disc t par pv r where disc: "findUniqueDiscussion s d = Some disc"
    and par: "par = None \<and> pv = d_startingNumber disc
       \<or> (\<exists>p q. par = Some p \<and> findUniqueOperation s p = Some q
               \<and> o_discussionId q = d \<and> pv = o_result q)"
    and cr: "computeResult pv t (parseFloat (operand b)) = Inr r"
    and eq: "?s' =
        s\<lparr>operations :=
            \<lparr>o_id = newId (nextId s), o_discussionId = d, o_parentId = par,
             o_operationType = t, o_operand = parseFloat (operand b), o_result = r,
             o_authorId = u, o_createdAt = now\<rparr> # operations s,
          nextId := Suc (nextId s)\<rparr>" by blast
  let ?x = "\<lparr>o_id = newId (nextId s), o_discussionId = d, o_parentId = par,
             o_operationType = t, o_operand = parseFloat (operand b), o_result = r,
             o_authorId = u, o_createdAt = now\<rparr>"
  have keep: "findUniqueOperation ?s' p = findUniqueOperation s p"
    if "findUniqueOperation s p = Some q" for p q
  proof -
    from findUniqueOperation_SomeD [OF that] assms(1)
    have "p \<noteq> newId (nextId s)" by (auto simp: storeOk_def)
    then show ?thesis unfolding eq by (simp add: findUniqueOperation_def)
  qed
  have ops: "operations ?s' = ?x # operations s"
    unfolding eq by simp
  have new: "case o_parentId ?x of
          None \<Rightarrow> True
        | Some p \<Rightarrow>
            (case findUniqueOperation ?s' p of
               None \<Rightarrow> False
             | Some q \<Rightarrow>
                 computeResult (o_result q) (o_operationType ?x) (o_operand ?x)
                   = Inr (o_result ?x))"
  proof (cases par)
    case None
    then show ?thesis by simp
  next
    case (Some p)
    then obtain q where q: "findUniqueOperation s p = Some q" "pv = o_result q"
      using par by auto
    show ?thesis using Some q cr keep [OF q(1)] by simp
  qed
  have old: "case o_parentId x of
          None \<Rightarrow> True
        | Some p \<Rightarrow>
            (case findUniqueOperation ?s' p of
               None \<Rightarrow> False
             | Some q \<Rightarrow>
                 computeResult (o_result q) (o_operationType x) (o_operand x)
                   = Inr (o_result x))" if "x \<in> set (operations s)" for x
  proof (cases "o_parentId x")
    case None
    then show ?thesis by simp
  next
    case (Some p)
    note h = bspec [OF assms(2) [unfolded childrenOk_def] that]
    then obtain q where q: "findUniqueOperation s p = Some q"
      using Some by (cases "findUniqueOperation s p") auto
    show ?thesis using h Some q keep [OF q] by simp
  qed
  show ?thesis
    unfolding childrenOk_def ops using new old by simp
qed

lemma reachable_childrenOk: "reachable s \<Longrightarrow> childrenOk s"
proof (induction rule: reachable.induct)
  case reachable_empty
  then show ?case by (simp add: childrenOk_def emptyStore_def)
next
  case (reachable_discussion s now startingNumber userId)
  then show ?case
    using childrenOk_operations [OF operations_discussion_create] by simp
next
  case (reachable_update s i startingNumber userId)
  then show ?case
    using childrenOk_operations [OF operations_discussion_update] by simp
next
  case (reachable_operation s now b userId)
  then show ?case
    using childrenOk_operation reachable_storeOk by blast
qed

lemma rootsOk_same:
  assumes "operations s' = operations s"
    "map_option d_startingNumber (findUniqueDiscussion s' i)
       = map_option d_startingNumber (findUniqueDiscussion s i)"
  shows "rootsOk s' i = rootsOk s i"
proof (cases "findUniqueDiscussion s' i")
  case None
  then have "findUniqueDiscussion s i = None" using assms(2) by simp
  then show ?thesis using None assms(1) by (simp add: rootsOk_def)
next
  case (Some d')
  then obtain d where d: "findUniqueDiscussion s i = Some d"
    "d_startingNumber d = d_startingNumber d'"
    using assms(2) by (cases "findUniqueDiscussion s i") auto
  show ?thesis using Some d assms(1) by (simp add: rootsOk_def)
qed

lemma rootsOk_none:
  assumes "i \<notin> o_discussionId ` set (operations s)"
  shows "rootsOk s i"
  using assms by (auto simp: rootsOk_def)

lemma rootsOk_discussion:
  assumes "storeOk s" "rootsOk s i"
  shows "rootsOk (snd (DiscussionController_create s now sn u)) i"
proof (cases "i \<in> o_discussionId ` set (operations s)")
  case False
  then show ?thesis
    using rootsOk_none [of i "snd (DiscussionController_create s now sn u)"]
    by (simp add: operations_discussion_create)
next
  case True
  then have "i \<in> d_id ` set (discussions s)"
    using assms(1) by (auto simp: storeOk_def)
  then have "i \<noteq> newId (nextId s)"
    using assms(1) by (auto simp: storeOk_def)
  then have "findUniqueDiscussion (snd (DiscussionController_create s now sn u)) i
               = findUniqueDiscussion s i"
    using DiscussionController_create_store [of s now sn u]
    by (auto simp: findUniqueDiscussion_def)
  then show ?thesis
    using rootsOk_same [OF operations_discussion_create] assms(2) by simp
qed

lemma rootsOk_operation:
  assumes "rootsOk s i"
  shows "rootsOk (snd (OperationController_create s now b u)) i"
proof (cases "snd (OperationController_create s now b u) = s")
  case True
  then show ?thesis using assms by simp
next
  case False
  let ?s' = "snd (OperationController_create s now b u)"
  from OperationController_create_store [OF False]
  obtain d disc t par pv r where disc: "findUniqueDiscussion s d = Some disc"
    and par: "par = None \<and> pv = d_startingNumber disc
       \<or> (\<exists>p q. par = Some p \<and> findUniqueOperation s p = Some q
               \<and> o_discussionId q = d \<and> pv = o_result q)"
    and cr: "computeResult pv t (parseFloat (operand b)) = Inr r"
    and eq: "?s' =
        s\<lparr>operations :=
            \<lparr>o_id = newId (nextId s), o_discussionId = d, o_parentId = par,
             o_operationType = t, o_operand = parseFloat (operand b), o_result = r,
             o_authorId = u, o_createdAt = now\<rparr> # operations s,
          nextId := Suc (nextId s)\<rparr>" by blast
  have discs: "findUniqueDiscussion ?s' i = findUniqueDiscussion s i"
    unfolding eq by (simp add: findUniqueDiscussion_def)
  show ?thesis
    unfolding rootsOk_def discs
    unfolding eq using assms par cr disc
    by (auto simp: rootsOk_def)
qed

lemma settled_rootsOk: "settled s i \<Longrightarrow> rootsOk s i"
proof (induction rule: settled.induct)
  case (settled_empty i)
  then show ?case by (simp add: rootsOk_def emptyStore_def)
next
  case (settled_discussion s i now startingNumber userId)
  then show ?case
    using rootsOk_discussion reachable_storeOk settled_reachable by blast
next
  case (settled_operation s i now b userId)
  then show ?case by (simp add: rootsOk_operation)
next
  case (settled_update s i j startingNumber userId)
  from settled_update(2) show ?case
  proof
    assume "i \<notin> o_discussionId ` set (operations s)"
    then show ?thesis
      using rootsOk_none [of i "snd (DiscussionController_update s j startingNumber userId)"]
      by (simp add: operations_discussion_update)
  next
    assume "map_option d_startingNumber
         (findUniqueDiscussion (snd (DiscussionController_update s j startingNumber userId)) i)
       = map_option d_startingNumber (findUniqueDiscussion s i)"
    then show ?thesis
      using rootsOk_same [OF operations_discussion_update] settled_update(3) by simp
  qed
qed

lemma replay_linked:
  assumes ok: "operationsOk (operations s)" and res: "childrenOk s"
  shows "linked (Some (o_id q)) path \<Longrightarrow> q \<in> set (operations s) \<Longrightarrow>
         set path \<subseteq> set (operations s) \<Longrightarrow>
         replay (o_result q) path = Inr (map o_result path)"
proof (induction path arbitrary: q)
  case Nil
  then show ?case by simp
next
  case (Cons x xs)
  have par: "o_parentId x = Some (o_id q)" and rest: "linked (Some (o_id x)) xs"
    using Cons.prems(1) by simp_all
  have x: "x \<in> set (operations s)" "set xs \<subseteq> set (operations s)"
    using Cons.prems(3) by simp_all
  have "computeResult (o_result q) (o_operationType x) (o_operand x) = Inr (o_result x)"
    using bspec [OF res [unfolded childrenOk_def] x(1)] par
      findUniqueOperation_member [OF ok Cons.prems(2)]
    by simp
  moreover have "replay (o_result x) xs = Inr (map o_result xs)"
    using Cons.IH [OF rest x] .
  ultimately show ?case by simp
qed

lemma linked_discussion:
  assumes ok: "operationsOk (operations (s::store))"
  shows "linked (Some (o_id q)) path \<Longrightarrow> q \<in> set (operations s) \<Longrightarrow>
         set path \<subseteq> set (operations s) \<Longrightarrow>
         o_discussionId (last (q # path)) = o_discussionId q"
proof (induction path arbitrary: q)
  case Nil
  then show ?case by simp
next
  case (Cons x xs)
  have par: "o_parentId x = Some (o_id q)" and rest: "linked (Some (o_id x)) xs"
    using Cons.prems(1) by simp_all
  have x: "x \<in> set (operations s)" "set xs \<subseteq> set (operations s)"
    using Cons.prems(3) by simp_all
  from operationsOk_parent [OF ok x(1) par]
  obtain q' where q': "q' \<in> set (operations s)" "o_id q' = o_id q"
    "o_discussionId q' = o_discussionId x" by blast
  have "q' = q"
    using findUniqueOperation_member [OF ok q'(1)]
      findUniqueOperation_member [OF ok Cons.prems(2)] q'(2) by (metis option.inject)
  then have "o_discussionId x = o_discussionId q" using q'(3) by simp
  then show ?case using Cons.IH [OF rest x] by simp
qed

text \<open>
  Claim C2, as the code has it. In a reachable store, for every sequence of stored
  operations that starts at an operation with no parent and follows the parent links,
  \<open>getOperationChain\<close> on the last one returns exactly that sequence, and applying
  \<open>computeResult\<close> along it from the first operation's stored result gives each later
  operation's stored result. From the discussion's starting number it gives the first
  operation's stored result as well, and so every one, when no update has changed that
  discussion's starting number since it got its first operation.
\<close>

theorem chain_reproduces_results:
  assumes "reachable s" "path \<noteq> []" "linked None path" "set path \<subseteq> set (operations s)"
  shows "OperationModel_getOperationChain s (o_id (last path)) = Some path
         \<and> replay (o_result (hd path)) (tl path) = Inr (map o_result (tl path))
         \<and> (settled s (o_discussionId (last path)) \<longrightarrow>
              (\<exists>d. findUniqueDiscussion s (o_discussionId (last path)) = Some d
                   \<and> replay (d_startingNumber d) path = Inr (map o_result path)))"
proof -
  have sok: "storeOk s" using assms(1) by (rule reachable_storeOk)
  then have ok: "operationsOk (operations s)" by (simp add: storeOk_def)
  have res: "childrenOk s" using assms(1) by (rule reachable_childrenOk)
  have last_mem: "last path \<in> set (operations s)"
    using assms(2,4) by auto
  have chain: "OperationModel_getOperationChain s (o_id (last path)) = Some path"
    using chainLoop_path [OF ok assms(2,3,4), of "[]"]
      findUniqueOperation_member [OF ok last_mem]
    by (simp add: OperationModel_getOperationChain_def)
  obtain x xs where path: "path = x # xs" using assms(2) by (cases path) auto
  have x: "x \<in> set (operations s)" "set xs \<subseteq> set (operations s)"
    "o_parentId x = None" "linked (Some (o_id x)) xs"
    using assms(3,4) path by simp_all
  have tail: "replay (o_result x) xs = Inr (map o_result xs)"
    using replay_linked [OF ok res x(4) x(1) x(2)] .
  have same: "o_discussionId (last path) = o_discussionId x"
    unfolding path using linked_discussion [OF ok x(4) x(1) x(2)] .
  have root: "\<exists>d. findUniqueDiscussion s (o_discussionId (last path)) = Some d
                   \<and> replay (d_startingNumber d) path = Inr (map o_result path)"
    if st: "settled s (o_discussionId (last path))"
  proof -
    have "rootsOk s (o_discussionId x)" using st same by (simp add: settled_rootsOk)
    then have "case findUniqueDiscussion s (o_discussionId x) of
             None \<Rightarrow> False
           | Some d \<Rightarrow>
               computeResult (d_startingNumber d) (o_operationType x) (o_operand x)
                 = Inr (o_result x)"
      using x(1,3) by (simp add: rootsOk_def)
    then obtain d where d: "findUniqueDiscussion s (o_discussionId x) = Some d"
      "computeResult (d_startingNumber d) (o_operationType x) (o_operand x) = Inr (o_result x)"
      by (cases "findUniqueDiscussion s (o_discussionId x)") auto
    have "replay (d_startingNumber d) path = Inr (map o_result path)"
      unfolding path using d(2) tail by simp
    then show ?thesis using d(1) same by simp
  qed
  show ?thesis
    using chain tail root unfolding path by simp
qed

theorem chain_reproduces_results_witness:
  "reachable scenarioUpdated
   \<and> linked None [firstOperation, secondOperation]
   \<and> OperationModel_getOperationChain scenarioUpdated ''c00''
       = Some [firstOperation, secondOperation]
   \<and> replay (Finite 52) [secondOperation] = Inr [Finite 104]
   \<and> settled scenarioOtherUpdated ''c''
   \<and> OperationModel_getOperationChain scenarioOtherUpdated ''c00''
       = Some [firstOperation, secondOperation]
   \<and> findUniqueDiscussion scenarioOtherUpdated ''c'' = Some theDiscussion
   \<and> replay (Finite 42) [firstOperation, secondOperation] = Inr [Finite 52, Finite 104]"
proof -
  have l: "linked None [firstOperation, secondOperation]"
    by (simp add: firstOperation_def secondOperation_def)
  have m1: "set [firstOperation, secondOperation] \<subseteq> set (operations scenarioUpdated)"
    by (simp add: scenarioUpdated_eq)
  have m2: "set [firstOperation, secondOperation] \<subseteq> set (operations scenarioOtherUpdated)"
    by (simp add: scenarioOtherUpdated_eq)
  have d: "findUniqueDiscussion scenarioOtherUpdated ''c'' = Some theDiscussion"
    by (simp add: scenarioOtherUpdated_eq findUniqueDiscussion_def theDiscussion_def
          otherDiscussion_def)
  have s: "settled scenarioOtherUpdated (o_discussionId (last [firstOperation, secondOperation]))"
    using settled_scenarioOtherUpdated by (simp add: secondOperation_def)
  note a = chain_reproduces_results [OF reachable_scenarioUpdated _ l m1]
  note b = chain_reproduces_results [OF reachable_scenarioOtherUpdated _ l m2]
  have 1: "OperationModel_getOperationChain scenarioUpdated ''c00''
       = Some [firstOperation, secondOperation]"
    using a by (simp add: secondOperation_def)
  have 2: "replay (Finite 52) [secondOperation] = Inr [Finite 104]"
    using a by (simp add: firstOperation_def secondOperation_def)
  have 3: "OperationModel_getOperationChain scenarioOtherUpdated ''c00''
       = Some [firstOperation, secondOperation]"
    using b by (simp add: secondOperation_def)
  have 4: "replay (Finite 42) [firstOperation, secondOperation] = Inr [Finite 52, Finite 104]"
    using b s d by (simp add: secondOperation_def firstOperation_def theDiscussion_def)
  show ?thesis
    by (intro conjI reachable_scenarioUpdated l 1 2 settled_scenarioOtherUpdated 3 d 4)
qed

text \<open>
  The claim as the spec states it fails once a starting number is changed: the stored
  result of ``ADD 10'' stays 52, and from the new starting number 100 the replay gives
  110.
\<close>

theorem chain_after_update_counterexample:
  "reachable scenarioUpdated
   \<and> linked None [firstOperation]
   \<and> firstOperation \<in> set (operations scenarioUpdated)
   \<and> OperationModel_getOperationChain scenarioUpdated ''c0'' = Some [firstOperation]
   \<and> findUniqueDiscussion scenarioUpdated ''c''
       = Some (theDiscussion\<lparr>d_startingNumber := Finite 100\<rparr>)
   \<and> replay (Finite 100) [firstOperation] = Inr [Finite 110]
   \<and> map o_result [firstOperation] = [Finite 52]
   \<and> replay (Finite 100) [firstOperation] \<noteq> Inr (map o_result [firstOperation])"
proof -
  have "chainLoop scenarioUpdated (Some firstOperation) [] = Some [firstOperation]"
    by (rule chainLoop_root) (simp add: firstOperation_def)
  moreover have "findUniqueOperation scenarioUpdated ''c0'' = Some firstOperation"
    by (simp add: scenarioUpdated_eq findUniqueOperation_def firstOperation_def
          secondOperation_def)
  ultimately have "OperationModel_getOperationChain scenarioUpdated ''c0''
      = Some [firstOperation]"
    by (simp add: OperationModel_getOperationChain_def)
  then show ?thesis
    using reachable_scenarioUpdated
    by (simp add: scenarioUpdated_eq findUniqueDiscussion_def theDiscussion_def
          firstOperation_def computeResult_def)
qed

section \<open>Listings: properties\<close>

lemma oldestFirst_exact:
  assumes "operationsOk (operations s)" "oldestFirst p s r"
  shows "distinct r \<and> set r = {x \<in> set (operations s). p x} \<and> sorted (map o_createdAt r)"
proof -
  have m: "mset r = mset (filter p (operations s))"
    and srt: "sorted_wrt (\<lambda>a b. o_createdAt a \<le> o_createdAt b) r"
    using assms(2) by (simp_all add: oldestFirst_def)
  have "distinct (operations s)"
    using operationsOk_distinct [OF assms(1)] by (simp add: distinct_map)
  then have "distinct (filter p (operations s))" by simp
  then have "distinct r" using mset_eq_imp_distinct_iff [OF m] by simp
  moreover have "set r = {x \<in> set (operations s). p x}"
    using mset_eq_setD [OF m] by simp
  moreover have "sorted (map o_createdAt r)"
    using srt by (simp add: sorted_map)
  ultimately show ?thesis by simp
qed

lemma oldestFirst_times:
  assumes "oldestFirst p s r" "oldestFirst p s r'"
  shows "map o_createdAt r' = map o_createdAt r"
proof -
  have "mset r' = mset r"
    using assms by (simp add: oldestFirst_def)
  then have eq: "mset (map o_createdAt r') = mset (map o_createdAt r)" by simp
  have s: "sorted (map o_createdAt r)" and s': "sorted (map o_createdAt r')"
    using assms by (simp_all add: oldestFirst_def sorted_map)
  have "sort (map o_createdAt r) = map o_createdAt r'"
    using eq s' by (rule properties_for_sort)
  moreover have "sort (map o_createdAt r) = map o_createdAt r"
    using refl s by (rule properties_for_sort)
  ultimately show ?thesis by simp
qed

lemma oldestFirst_exists: "\<exists>r. oldestFirst p s r"
proof -
  have "sorted (map o_createdAt (sort_key o_createdAt (filter p (operations s))))"
    by (rule sorted_sort_key)
  then have "oldestFirst p s (sort_key o_createdAt (filter p (operations s)))"
    by (simp add: oldestFirst_def sorted_map)
  then show ?thesis ..
qed

text \<open>
  Claim C9, as the code has it. In a reachable store each oldest-first listing (the
  operations of a discussion, the children of an operation, the root operations) has an
  answer, and every answer holds exactly the matching rows, each once, with creation
  times that never decrease; two answers to one query have the same sequence of creation
  times, so they differ at most in the order of rows created at the same time, which the
  queries leave open. \<open>findAll\<close> holds every discussion once, creation times never
  increasing, each with exactly its operations, oldest first.
\<close>

theorem listings_ordered:
  assumes "reachable s"
  shows
    "(\<exists>r. findByDiscussion s d r) \<and> (\<exists>r. getChildren s i r) \<and> (\<exists>r. getRootOperations s d r)
     \<and> (findByDiscussion s d r \<longrightarrow>
          distinct r \<and> set r = {x \<in> set (operations s). o_discussionId x = d}
          \<and> sorted (map o_createdAt r)
          \<and> (findByDiscussion s d r' \<longrightarrow> map o_createdAt r' = map o_createdAt r))
     \<and> (getChildren s i r \<longrightarrow>
          distinct r \<and> set r = {x \<in> set (operations s). o_parentId x = Some i}
          \<and> sorted (map o_createdAt r)
          \<and> (getChildren s i r' \<longrightarrow> map o_createdAt r' = map o_createdAt r))
     \<and> (getRootOperations s d r \<longrightarrow>
          distinct r
          \<and> set r = {x \<in> set (operations s). o_discussionId x = d \<and> o_parentId x = None}
          \<and> sorted (map o_createdAt r)
          \<and> (getRootOperations s d r' \<longrightarrow> map o_createdAt r' = map o_createdAt r))
     \<and> (findAll s ds \<longrightarrow>
          distinct (map fst ds) \<and> set (map fst ds) = set (discussions s)
          \<and> sorted (rev (map (d_createdAt \<circ> fst) ds))
          \<and> (\<forall>(e, xs) \<in> set ds.
                distinct xs \<and> set xs = {x \<in> set (operations s). o_discussionId x = d_id e}
                \<and> sorted (map o_createdAt xs)))"
proof -
  have sok: "storeOk s" using assms by (rule reachable_storeOk)
  then have ok: "operationsOk (operations s)" by (simp add: storeOk_def)
  have all: "distinct (map fst ds) \<and> set (map fst ds) = set (discussions s)
          \<and> sorted (rev (map (d_createdAt \<circ> fst) ds))
          \<and> (\<forall>(e, xs) \<in> set ds.
                distinct xs \<and> set xs = {x \<in> set (operations s). o_discussionId x = d_id e}
                \<and> sorted (map o_createdAt xs))" if f: "findAll s ds"
  proof -
    have m: "mset (map fst ds) = mset (discussions s)"
      and srt: "sorted_wrt (\<lambda>a b. d_createdAt b \<le> d_createdAt a) (map fst ds)"
      and each: "list_all (\<lambda>(e, xs). findByDiscussion s (d_id e) xs) ds"
      using f by (simp_all add: findAll_def)
    have "distinct (discussions s)"
      using sok by (simp add: storeOk_def distinct_map)
    then have "distinct (map fst ds)" using mset_eq_imp_distinct_iff [OF m] by simp
    moreover have "set (map fst ds) = set (discussions s)" using m by (rule mset_eq_setD)
    moreover have "sorted (rev (map (d_createdAt \<circ> fst) ds))"
    proof -
      have "sorted_wrt (\<lambda>a b. b \<le> a) (map (d_createdAt \<circ> fst) ds)"
        using srt by (simp add: sorted_wrt_map)
      then show ?thesis by (simp add: sorted_wrt_rev)
    qed
    moreover have "\<forall>(e, xs) \<in> set ds.
                distinct xs \<and> set xs = {x \<in> set (operations s). o_discussionId x = d_id e}
                \<and> sorted (map o_createdAt xs)"
      using each oldestFirst_exact [OF ok]
      by (auto simp: list_all_iff findByDiscussion_def)
    ultimately show ?thesis by simp
  qed
  show ?thesis
  proof (intro conjI impI)
    show "\<exists>r. findByDiscussion s d r" "\<exists>r. getChildren s i r"
      "\<exists>r. getRootOperations s d r"
      unfolding findByDiscussion_def getChildren_def getRootOperations_def
      by (rule oldestFirst_exists)+
  next
    assume "findByDiscussion s d r"
    then show "distinct r" "set r = {x \<in> set (operations s). o_discussionId x = d}"
      "sorted (map o_createdAt r)"
      using oldestFirst_exact [OF ok] by (simp_all add: findByDiscussion_def)
  next
    assume "findByDiscussion s d r" "findByDiscussion s d r'"
    then show "map o_createdAt r' = map o_createdAt r"
      unfolding findByDiscussion_def by (rule oldestFirst_times)
  next
    assume "getChildren s i r"
    then show "distinct r" "set r = {x \<in> set (operations s). o_parentId x = Some i}"
      "sorted (map o_createdAt r)"
      using oldestFirst_exact [OF ok] by (simp_all add: getChildren_def)
  next
    assume "getChildren s i r" "getChildren s i r'"
    then show "map o_createdAt r' = map o_createdAt r"
      unfolding getChildren_def by (rule oldestFirst_times)
  next
    assume "getRootOperations s d r"
    then show "distinct r"
      "set r = {x \<in> set (operations s). o_discussionId x = d \<and> o_parentId x = None}"
      "sorted (map o_createdAt r)"
      using oldestFirst_exact [OF ok] by (simp_all add: getRootOperations_def)
  next
    assume "getRootOperations s d r" "getRootOperations s d r'"
    then show "map o_createdAt r' = map o_createdAt r"
      unfolding getRootOperations_def by (rule oldestFirst_times)
  next
    assume "findAll s ds"
    from all [OF this]
    show "distinct (map fst ds)" "set (map fst ds) = set (discussions s)"
      "sorted (rev (map (d_createdAt \<circ> fst) ds))"
      "\<forall>(e, xs) \<in> set ds.
                distinct xs \<and> set xs = {x \<in> set (operations s). o_discussionId x = d_id e}
                \<and> sorted (map o_createdAt xs)"
      by simp_all
  qed
qed

theorem listings_ordered_witness:
  "reachable scenarioTie
   \<and> findByDiscussion scenarioTie ''c'' [firstOperation, tieOperation]
   \<and> findByDiscussion scenarioTie ''c'' [tieOperation, firstOperation]
   \<and> getRootOperations scenarioTie ''c'' [firstOperation, tieOperation]
   \<and> getRootOperations scenarioTie ''c'' [tieOperation, firstOperation]
   \<and> set [firstOperation, tieOperation]
       = {x \<in> set (operations scenarioTie). o_discussionId x = ''c''}
   \<and> map o_createdAt [tieOperation, firstOperation]
       = map o_createdAt [firstOperation, tieOperation]
   \<and> reachable scenarioTwo
   \<and> getChildren scenarioTwo ''c0'' [secondOperation]
   \<and> set [secondOperation] = {x \<in> set (operations scenarioTwo). o_parentId x = Some ''c0''}
   \<and> findAll scenarioTwo
        [(otherDiscussion, []), (theDiscussion, [firstOperation, secondOperation])]
   \<and> sorted (rev (map (d_createdAt \<circ> fst)
        [(otherDiscussion, []), (theDiscussion, [firstOperation, secondOperation])]))"
proof -
  have f: "findByDiscussion scenarioTie ''c'' [firstOperation, tieOperation]"
    "findByDiscussion scenarioTie ''c'' [tieOperation, firstOperation]"
    "getRootOperations scenarioTie ''c'' [firstOperation, tieOperation]"
    "getRootOperations scenarioTie ''c'' [tieOperation, firstOperation]"
    by (simp_all add: scenarioTie_eq findByDiscussion_def getRootOperations_def oldestFirst_def
          firstOperation_def tieOperation_def)
  have g: "getChildren scenarioTwo ''c0'' [secondOperation]"
    by (simp add: scenarioTwo_eq getChildren_def oldestFirst_def firstOperation_def
          secondOperation_def)
  have h: "findAll scenarioTwo
        [(otherDiscussion, []), (theDiscussion, [firstOperation, secondOperation])]"
    by (simp add: scenarioTwo_eq findAll_def findByDiscussion_def oldestFirst_def
          firstOperation_def secondOperation_def theDiscussion_def otherDiscussion_def)
  note A = listings_ordered [OF reachable_scenarioTie, where d = "''c''"
      and r = "[firstOperation, tieOperation]" and r' = "[tieOperation, firstOperation]"]
  note B = listings_ordered [OF reachable_scenarioTwo, where i = "''c0''"
      and r = "[secondOperation]"
      and ds = "[(otherDiscussion, []), (theDiscussion, [firstOperation, secondOperation])]"]
  have s1: "set [firstOperation, tieOperation]
       = {x \<in> set (operations scenarioTie). o_discussionId x = ''c''}"
    using A f(1) by blast
  have s2: "map o_createdAt [tieOperation, firstOperation]
       = map o_createdAt [firstOperation, tieOperation]"
    using A f(1,2) by blast
  have s3: "set [secondOperation]
       = {x \<in> set (operations scenarioTwo). o_parentId x = Some ''c0''}"
    using B g by blast
  have s4: "sorted (rev (map (d_createdAt \<circ> fst)
        [(otherDiscussion, []), (theDiscussion, [firstOperation, secondOperation])]))"
    using B h by blast
  show ?thesis
    by (intro conjI f g h s1 s2 s3 s4 reachable_scenarioTie reachable_scenarioTwo)
qed

text \<open>
  The claim as the spec states it fails: no identity breaks a tie. Two operations
  written at the same clock value may be listed in either order.
\<close>

theorem listings_tie_counterexample:
  "reachable scenarioTie
   \<and> o_createdAt firstOperation = o_createdAt tieOperation
   \<and> findByDiscussion scenarioTie ''c'' [firstOperation, tieOperation]
   \<and> findByDiscussion scenarioTie ''c'' [tieOperation, firstOperation]
   \<and> [firstOperation, tieOperation] \<noteq> [tieOperation, firstOperation]"
  using reachable_scenarioTie
  by (simp add: scenarioTie_eq findByDiscussion_def oldestFirst_def firstOperation_def
        tieOperation_def)

end
